theory Spec2Isabelle
  imports Main "HOL-Library.Sublist" "HOL-Library.Word"
begin

section \<open>Data\<close>

text \<open>
  The program is \<^verbatim>\<open>backend/src/services/sinfInjector.ts\<close>. JavaScript strings are
  modelled as \<^typ>\<open>string\<close> (lists of characters); the program only searches, splits and
  concatenates them. A Node \<^verbatim>\<open>Buffer\<close> is a list of bytes.
\<close>

type_synonym Buffer = "8 word list"

text \<open>
  The values the two plist parsers hand back (JavaScript values): \<open>null\<close>, booleans,
  numbers, strings, \<^verbatim>\<open>Buffer\<close>s, dates, arrays and plain objects. A number that is not
  an integer is kept as mantissa and binary exponent; only its being zero or NaN is ever
  looked at.
\<close>

datatype float64 = FFinite int int | FInf bool | FNaN

datatype PropertyValue =
    PNull
  | PBool bool
  | PInt int
  | PReal float64
  | PString string
  | PData Buffer
  | PDate int
  | PArray "PropertyValue list"
  | PDict "(string \<times> PropertyValue) list"

text \<open>JavaScript truthiness, as \<^verbatim>\<open>if (parsed)\<close> tests it.\<close>

fun truthy :: "PropertyValue \<Rightarrow> bool" where
  "truthy PNull = False"
| "truthy (PBool b) = b"
| "truthy (PInt n) = (n \<noteq> 0)"
| "truthy (PReal f) = (case f of FFinite m e \<Rightarrow> m \<noteq> 0 | FInf s \<Rightarrow> True | FNaN \<Rightarrow> False)"
| "truthy (PString s) = (s \<noteq> [])"
| "truthy (PData b) = True"
| "truthy (PDate d) = True"
| "truthy (PArray xs) = True"
| "truthy (PDict kvs) = True"

text \<open>\<^verbatim>\<open>typeof v === "object"\<close> for a value that is not \<open>null\<close>.\<close>

fun is_object :: "PropertyValue \<Rightarrow> bool" where
  "is_object (PData b) = True"
| "is_object (PDate d) = True"
| "is_object (PArray xs) = True"
| "is_object (PDict kvs) = True"
| "is_object v = False"

text \<open>
  \<^verbatim>\<open>parsed["SinfPaths"]\<close> and \<^verbatim>\<open>parsed["CFBundleExecutable"]\<close>: the value stored under
  the key in a plain object, \<open>undefined\<close> (here \<open>None\<close>) otherwise; neither key is a
  property of a string, an array, a \<^verbatim>\<open>Buffer\<close> or a date.
\<close>

fun js_get :: "PropertyValue \<Rightarrow> string \<Rightarrow> PropertyValue option" where
  "js_get (PDict kvs) k = map_of kvs k"
| "js_get v k = None"

text \<open>
  Modelled from the spec: the type \<^verbatim>\<open>Sinf\<close> is declared in \<^verbatim>\<open>../types/index.js\<close>, which
  is not among the sources. The spec's DrmBlob is an index and a payload whose source form
  is base64 text; the program reads the field \<^verbatim>\<open>sinf\<close> only.
\<close>

record Sinf =
  sinf_id :: int
  sinf :: string

text \<open>An element of \<^verbatim>\<open>filesToInject\<close>.\<close>

record FileToInject =
  entryPath :: string
  data :: Buffer

section \<open>The outside world\<close>

text \<open>
  Every call that leaves the program is recorded, in order, as a \<open>call\<close>:
  \<^verbatim>\<open>execFile(cmd, args, {cwd})\<close>, \<^verbatim>\<open>fs.promises.mkdtemp\<close>,
  \<^verbatim>\<open>fs.promises.mkdir(dir, {recursive: true})\<close>, \<^verbatim>\<open>fs.promises.writeFile(path, data)\<close> and
  \<^verbatim>\<open>fs.promises.rm(dir, {recursive: true, force: true})\<close>.
\<close>

datatype call =
    ExecFile string "string list" "string option"
  | Mkdtemp
  | Mkdir string
  | WriteFile string Buffer
  | Rm string

text \<open>
  The errors the program ends with: a rejected \<^verbatim>\<open>execFile\<close>, a rejected \<^verbatim>\<open>fs\<close> call,
  \<^verbatim>\<open>"Path traversal detected in entry: ..."\<close>, \<^verbatim>\<open>"Could not read bundle name"\<close>,
  \<^verbatim>\<open>"Could not read manifest or info plist"\<close>, and the \<^verbatim>\<open>TypeError\<close> of a template
  literal whose value cannot be converted to a string.
\<close>

datatype error =
    ArchiveToolFailure
  | FsFailure
  | UnsafePath string
  | BundleNotFound
  | LocatorFailed
  | TypeError

text \<open>
  What the program does not compute itself is a field of \<open>world\<close>, and every theorem
  holds for every world:
  \<^item> \<open>unzip_list ipa\<close>: the standard output of \<^verbatim>\<open>unzip -l -- ipa\<close>, as text, \<open>None\<close>
    when \<^verbatim>\<open>execFile\<close> rejects;
  \<^item> \<open>unzip_pipe ipa entry\<close>: the standard output of \<^verbatim>\<open>unzip -p -- ipa entry\<close>, \<open>None\<close> when
    \<^verbatim>\<open>execFile\<close> rejects;
  \<^item> \<open>bplist_parseBuffer\<close>, \<open>plist_parse\<close>, \<open>bplistCreator\<close>: the three plist libraries,
    \<open>None\<close> when they throw;
  \<^item> \<open>from_base64\<close>: \<^verbatim>\<open>Buffer.from(s, "base64")\<close>; \<open>utf8_toString\<close>:
    \<^verbatim>\<open>buf.toString("utf-8")\<close>; \<open>to_String\<close>: the string a template literal makes of a
    value that is not a string, \<open>None\<close> when the conversion throws (an object whose
    \<^verbatim>\<open>toString\<close> is not callable, such as a parsed dictionary with the key
    \<^verbatim>\<open>toString\<close>);
  \<^item> \<open>mkdtemp\<close>: the directory \<^verbatim>\<open>fs.promises.mkdtemp(path.join(os.tmpdir(), "sinf-"))\<close>
    creates, \<open>None\<close> when it rejects; \<open>cwd\<close>: \<^verbatim>\<open>process.cwd()\<close>;
  \<^item> \<open>succeeds tr c\<close>: whether the call \<open>c\<close> (a \<^verbatim>\<open>mkdir\<close>, \<^verbatim>\<open>writeFile\<close>, \<^verbatim>\<open>zip\<close> or
    \<^verbatim>\<open>rm\<close>) succeeds after the calls \<open>tr\<close> that \<^verbatim>\<open>addFilesToZip\<close> has issued so far.
\<close>

record world =
  unzip_list :: "string \<Rightarrow> string option"
  unzip_pipe :: "string \<Rightarrow> string \<Rightarrow> Buffer option"
  bplist_parseBuffer :: "Buffer \<Rightarrow> PropertyValue list option"
  plist_parse :: "string \<Rightarrow> PropertyValue option"
  bplistCreator :: "PropertyValue \<Rightarrow> Buffer option"
  from_base64 :: "string \<Rightarrow> Buffer"
  utf8_toString :: "Buffer \<Rightarrow> string"
  to_String :: "PropertyValue \<Rightarrow> string option"
  mkdtemp :: "string option"
  cwd :: string
  succeeds :: "call list \<Rightarrow> call \<Rightarrow> bool"

section \<open>String and path functions of the runtime\<close>

definition str_includes :: "string \<Rightarrow> string \<Rightarrow> bool" where
  "str_includes s sub = sublist sub s"

definition str_endsWith :: "string \<Rightarrow> string \<Rightarrow> bool" where
  "str_endsWith s suf = suffix suf s"

definition str_startsWith :: "string \<Rightarrow> string \<Rightarrow> bool" where
  "str_startsWith s pre = prefix pre s"

text \<open>\<^verbatim>\<open>s.split(sep)\<close> for a separator of one character: never empty.\<close>

fun str_split :: "string \<Rightarrow> char \<Rightarrow> string list" where
  "str_split [] sep = [[]]"
| "str_split (c # cs) sep =
     (if c = sep then [] # str_split cs sep
      else (case str_split cs sep of
              [] \<Rightarrow> [[c]]
            | p # ps \<Rightarrow> (c # p) # ps))"

text \<open>\<^verbatim>\<open>s.replace(pat, rep)\<close> with a string pattern: the first occurrence only.\<close>

fun str_replace :: "string \<Rightarrow> string \<Rightarrow> string \<Rightarrow> string" where
  "str_replace [] pat rep = (if pat = [] then rep else [])"
| "str_replace (c # cs) pat rep =
     (if prefix pat (c # cs) then rep @ drop (length pat) (c # cs)
      else c # str_replace cs pat rep)"

fun str_join :: "string list \<Rightarrow> string" where
  "str_join [] = []"
| "str_join [s] = s"
| "str_join (s # t # ss) = s @ ''/'' @ str_join (t # ss)"

text \<open>
  The program runs \<^verbatim>\<open>unzip\<close> and \<^verbatim>\<open>zip\<close>; the path functions are Node's POSIX ones, and
  \<^verbatim>\<open>path.sep\<close> is the slash.

  Node's POSIX \<^verbatim>\<open>path.resolve\<close>. Its \<^verbatim>\<open>normalizeString\<close> walks the segments between
  slashes: an empty segment and \<^verbatim>\<open>.\<close> are dropped, \<^verbatim>\<open>..\<close> removes the segment before it
  (when there is one that is not itself \<^verbatim>\<open>..\<close>), and is kept only above a relative root.
\<close>

fun normalizeString :: "bool \<Rightarrow> string list \<Rightarrow> string list \<Rightarrow> string list" where
  "normalizeString allowAboveRoot res [] = res"
| "normalizeString allowAboveRoot res (seg # segs) =
     (if seg = [] \<or> seg = ''.'' then normalizeString allowAboveRoot res segs
      else if seg = ''..'' then
        (if res \<noteq> [] \<and> last res \<noteq> ''..'' then normalizeString allowAboveRoot (butlast res) segs
         else if allowAboveRoot then normalizeString allowAboveRoot (res @ [''..'']) segs
         else normalizeString allowAboveRoot res segs)
      else normalizeString allowAboveRoot (res @ [seg]) segs)"

text \<open>
  The arguments are taken from the right, then the working directory, until one is
  absolute; empty ones are skipped.
\<close>

fun resolve_loop :: "string list \<Rightarrow> string \<Rightarrow> string \<times> bool" where
  "resolve_loop [] resolvedPath = (resolvedPath, False)"
| "resolve_loop (p # ps) resolvedPath =
     (if p = [] then resolve_loop ps resolvedPath
      else if hd p = CHR ''/'' then (p @ ''/'' @ resolvedPath, True)
      else resolve_loop ps (p @ ''/'' @ resolvedPath))"

definition path_resolve :: "string \<Rightarrow> string list \<Rightarrow> string" where
  "path_resolve wd args =
     (case resolve_loop (rev args @ [wd]) [] of
        (resolvedPath, resolvedAbsolute) \<Rightarrow>
          (let norm = str_join (normalizeString (\<not> resolvedAbsolute) []
                                 (str_split resolvedPath CHR ''/''))
           in if resolvedAbsolute then ''/'' @ norm
              else if norm \<noteq> [] then norm else ''.''))"

text \<open>
  Node's POSIX \<^verbatim>\<open>path.dirname\<close>: from the right, past trailing slashes and the last
  segment, the path before the slash found there (the first character is never looked at).
\<close>

definition path_dirname :: "string \<Rightarrow> string" where
  "path_dirname p =
     (if p = [] then ''.''
      else
        (let hasRoot = (hd p = CHR ''/'');
             r = dropWhile (\<lambda>c. c \<noteq> CHR ''/'') (dropWhile (\<lambda>c. c = CHR ''/'') (rev (tl p)))
         in if r = [] then (if hasRoot then ''/'' else ''.'')
            else if hasRoot \<and> tl r = [] then ''//''
            else hd p # rev (tl r)))"

section \<open>ArchiveAccessor: listEntries, readEntry\<close>

text \<open>
  The character classes of the regular expression of \<^verbatim>\<open>listEntries\<close>, on characters
  below 256: \<^verbatim>\<open>\s\<close> (tab, line feed, vertical tab, form feed, carriage return, space,
  no-break space), \<^verbatim>\<open>\d\<close>, and the line terminators that \<^verbatim>\<open>.\<close> does not match.
\<close>

definition is_space :: "char \<Rightarrow> bool" where
  "is_space c = (c \<in> set [CHR 0x09, CHR 0x0A, CHR 0x0B, CHR 0x0C, CHR 0x0D, CHR '' '', CHR 0xA0])"

definition is_digit :: "char \<Rightarrow> bool" where
  "is_digit c = (c \<in> set ''0123456789'')"

definition is_line_terminator :: "char \<Rightarrow> bool" where
  "is_line_terminator c = (c = CHR 0x0A \<or> c = CHR 0x0D)"

definition str_trim :: "string \<Rightarrow> string" where
  "str_trim s = rev (dropWhile is_space (rev (dropWhile is_space s)))"

text \<open>
  \<^verbatim>\<open>line.match(/^\s*\d+\s+\d{2}-\d{2}-\d{2,4}\s+\d{2}:\d{2}\s+(.+)$/)\<close>, giving the
  trimmed group. The classes of neighbouring parts are disjoint, so each part takes all
  it can; only the last \<^verbatim>\<open>\s+\<close> may give up its last character to the group, when
  nothing but white space follows the time.
\<close>

definition match_line :: "string \<Rightarrow> string option" where
  "match_line line =
     (let l1 = dropWhile is_space line;
          l2 = dropWhile is_digit l1;
          l3 = dropWhile is_space l2
      in if l2 = l1 \<or> l3 = l2 then None
         else
           (case l3 of
              d1 # d2 # m1 # d3 # d4 # m2 # l4 \<Rightarrow>
                if is_digit d1 \<and> is_digit d2 \<and> m1 = CHR ''-'' \<and>
                   is_digit d3 \<and> is_digit d4 \<and> m2 = CHR ''-''
                then
                  (let y = takeWhile is_digit l4;
                       l5 = dropWhile is_digit l4;
                       l6 = dropWhile is_space l5
                   in if length y < 2 \<or> length y > 4 \<or> l6 = l5 then None
                      else
                        (case l6 of
                           h1 # h2 # c # n1 # n2 # l7 \<Rightarrow>
                             if is_digit h1 \<and> is_digit h2 \<and> c = CHR '':'' \<and>
                                is_digit n1 \<and> is_digit n2
                             then
                               (let sp = takeWhile is_space l7;
                                    l8 = dropWhile is_space l7
                                in if sp = [] then None
                                   else if l8 \<noteq> []
                                   then (if \<exists>x\<in>set l8. is_line_terminator x then None
                                         else Some (str_trim l8))
                                   else if length sp \<ge> 2 \<and> \<not> is_line_terminator (last sp)
                                   then Some (str_trim [last sp])
                                   else None)
                             else None
                         | _ \<Rightarrow> None))
                else None
            | _ \<Rightarrow> None))"

text \<open>
  \<^verbatim>\<open>listEntries\<close>: the output of \<^verbatim>\<open>unzip -l -- ipaPath\<close> is split at line feeds, and the
  lines that match give the entries, in order.
\<close>

definition listEntries :: "world \<Rightarrow> string \<Rightarrow> (error + string list) \<times> call list" where
  "listEntries w ipaPath =
     (case unzip_list w ipaPath of
        None \<Rightarrow> Inl ArchiveToolFailure
      | Some stdout \<Rightarrow> Inr (List.map_filter match_line (str_split stdout CHR 0x0A)),
      [ExecFile ''unzip'' [''-l'', ''--'', ipaPath] None])"

definition readEntry :: "world \<Rightarrow> string \<Rightarrow> string \<Rightarrow> (error + Buffer) \<times> call list" where
  "readEntry w ipaPath entry =
     (case unzip_pipe w ipaPath entry of
        None \<Rightarrow> Inl ArchiveToolFailure
      | Some out \<Rightarrow> Inr out,
      [ExecFile ''unzip'' [''-p'', ''--'', ipaPath, entry] None])"

section \<open>addFilesToZip\<close>

text \<open>
  The loop over \<^verbatim>\<open>files\<close>: \<open>tr\<close> is the calls issued so far, \<open>relativePaths\<close> the array
  of the same name. The guard comes first; a rejected \<^verbatim>\<open>mkdir\<close> or \<^verbatim>\<open>writeFile\<close> ends the
  loop as a thrown error does.
\<close>

fun stage_files ::
  "world \<Rightarrow> string \<Rightarrow> string \<Rightarrow> FileToInject list \<Rightarrow> call list \<Rightarrow> string list
     \<Rightarrow> (error + string list) \<times> call list" where
  "stage_files w tmpDir resolvedTmpDir [] tr relativePaths = (Inr relativePaths, tr)"
| "stage_files w tmpDir resolvedTmpDir (file # files) tr relativePaths =
     (let fullPath = path_resolve (cwd w) [tmpDir, entryPath file] in
      if \<not> str_startsWith fullPath (resolvedTmpDir @ ''/'')
      then (Inl (UnsafePath (entryPath file)), tr)
      else if \<not> succeeds w tr (Mkdir (path_dirname fullPath))
      then (Inl FsFailure, tr @ [Mkdir (path_dirname fullPath)])
      else if \<not> succeeds w (tr @ [Mkdir (path_dirname fullPath)]) (WriteFile fullPath (data file))
      then (Inl FsFailure, tr @ [Mkdir (path_dirname fullPath), WriteFile fullPath (data file)])
      else stage_files w tmpDir resolvedTmpDir files
             (tr @ [Mkdir (path_dirname fullPath), WriteFile fullPath (data file)])
             (relativePaths @ [entryPath file]))"

text \<open>
  \<^verbatim>\<open>try { stage; zip } finally { rm }\<close>: the \<^verbatim>\<open>rm\<close> runs on every path out of the
  \<^verbatim>\<open>try\<close>, and a rejected \<^verbatim>\<open>rm\<close> replaces the outcome.
\<close>

definition addFilesToZip :: "world \<Rightarrow> string \<Rightarrow> FileToInject list \<Rightarrow> (error + unit) \<times> call list" where
  "addFilesToZip w ipaPath files =
     (case mkdtemp w of
        None \<Rightarrow> (Inl FsFailure, [Mkdtemp])
      | Some tmpDir \<Rightarrow>
          (case (case stage_files w tmpDir (path_resolve (cwd w) [tmpDir]) files [Mkdtemp] [] of
                   (Inl e, tr) \<Rightarrow> (Inl e, tr)
                 | (Inr relativePaths, tr) \<Rightarrow>
                     (if succeeds w tr (ExecFile ''zip'' ([''-0'', ipaPath, ''--''] @ relativePaths) (Some tmpDir))
                      then Inr () else Inl ArchiveToolFailure,
                      tr @ [ExecFile ''zip'' ([''-0'', ipaPath, ''--''] @ relativePaths) (Some tmpDir)])) of
             (r, tr) \<Rightarrow>
               (if succeeds w tr (Rm tmpDir) then r else Inl FsFailure, tr @ [Rm tmpDir])))"

section \<open>BundleLocator: readBundleName, parsePlistBuffer, readManifestPlist, readInfoPlist\<close>

text \<open>The inner loop of \<^verbatim>\<open>readBundleName\<close> over the components of one entry path.\<close>

fun first_app_component :: "string list \<Rightarrow> string option" where
  "first_app_component [] = None"
| "first_app_component (c # cs) =
     (if str_endsWith c ''.app'' then Some (str_replace c ''.app'' [])
      else first_app_component cs)"

fun readBundleName :: "string list \<Rightarrow> error + string" where
  "readBundleName [] = Inl BundleNotFound"
| "readBundleName (entry # entries) =
     (if str_includes entry ''.app/Info.plist'' \<and> \<not> str_includes entry ''/Watch/''
      then (case first_app_component (str_split entry CHR ''/'') of
              Some name \<Rightarrow> Inr name
            | None \<Rightarrow> readBundleName entries)
      else readBundleName entries)"

text \<open>
  The result \<open>PNull\<close> is the \<open>null\<close> the function returns (and a \<open>null\<close> the binary parser
  may hand back as its first object).
\<close>

definition parsePlistBuffer :: "world \<Rightarrow> Buffer \<Rightarrow> PropertyValue" where
  "parsePlistBuffer w dat =
     (case bplist_parseBuffer w dat of
        Some (v # vs) \<Rightarrow> v
      | _ \<Rightarrow>
          (let xml = utf8_toString w dat in
           if str_includes xml ''<?xml'' \<or> str_includes xml ''<plist''
           then (case plist_parse w xml of
                   None \<Rightarrow> PNull
                 | Some parsed \<Rightarrow> if truthy parsed \<and> is_object parsed then parsed else PNull)
           else PNull))"

fun readManifestPlist ::
  "world \<Rightarrow> string \<Rightarrow> string list \<Rightarrow> (error + PropertyValue list option) \<times> call list" where
  "readManifestPlist w ipaPath [] = (Inr None, [])"
| "readManifestPlist w ipaPath (entry # entries) =
     (if str_endsWith entry ''.app/SC_Info/Manifest.plist''
      then (case readEntry w ipaPath entry of
              (Inl e, tr) \<Rightarrow> (Inl e, tr)
            | (Inr dat, tr) \<Rightarrow>
                (let parsed = parsePlistBuffer w dat in
                 if truthy parsed
                 then (case js_get parsed ''SinfPaths'' of
                         Some (PArray sinfPaths) \<Rightarrow> (Inr (Some sinfPaths), tr)
                       | _ \<Rightarrow> (Inr None, tr))
                 else (Inr None, tr)))
      else readManifestPlist w ipaPath entries)"

fun readInfoPlist ::
  "world \<Rightarrow> string \<Rightarrow> string list \<Rightarrow> (error + string option) \<times> call list" where
  "readInfoPlist w ipaPath [] = (Inr None, [])"
| "readInfoPlist w ipaPath (entry # entries) =
     (if str_includes entry ''.app/Info.plist'' \<and> \<not> str_includes entry ''/Watch/''
      then (case readEntry w ipaPath entry of
              (Inl e, tr) \<Rightarrow> (Inl e, tr)
            | (Inr dat, tr) \<Rightarrow>
                (let parsed = parsePlistBuffer w dat in
                 if truthy parsed
                 then (case js_get parsed ''CFBundleExecutable'' of
                         Some (PString executable) \<Rightarrow> (Inr (Some executable), tr)
                       | _ \<Rightarrow> (Inr None, tr))
                 else (Inr None, tr)))
      else readInfoPlist w ipaPath entries)"

section \<open>inject\<close>

text \<open>
  A value inside a template literal: a string as it is, anything else converted, which may
  throw. The elements of \<^verbatim>\<open>manifest.sinfPaths\<close> are parsed data that the cast to
  \<^verbatim>\<open>string[]\<close> does not check.
\<close>

fun template :: "world \<Rightarrow> PropertyValue \<Rightarrow> string option" where
  "template w (PString s) = Some s"
| "template w v = to_String w v"

text \<open>
  The loop over \<^verbatim>\<open>manifest.sinfPaths\<close> (lines 26 to 34): \<open>i\<close> is the index, \<open>acc\<close> what
  has been pushed so far. The template literal of line 29 is evaluated only for an index
  that has a sinf; when it throws, the loop and \<^verbatim>\<open>inject\<close> end with the error.
\<close>

function manifest_loop ::
  "world \<Rightarrow> string \<Rightarrow> PropertyValue list \<Rightarrow> Sinf list \<Rightarrow> nat \<Rightarrow> FileToInject list
     \<Rightarrow> error + FileToInject list" where
  "manifest_loop w bundleName sinfPaths sinfs i acc =
     (if i < length sinfPaths
      then (if i \<ge> length sinfs
            then manifest_loop w bundleName sinfPaths sinfs (i + 1) acc
            else (case template w (sinfPaths ! i) of
                    None \<Rightarrow> Inl TypeError
                  | Some sinfPath \<Rightarrow>
                      manifest_loop w bundleName sinfPaths sinfs (i + 1)
                        (acc @ [\<lparr>entryPath = ''Payload/'' @ bundleName @ ''.app/'' @ sinfPath,
                                 data = from_base64 w (sinf (sinfs ! i))\<rparr>])))
      else Inr acc)"
  by pat_completeness auto
termination
  by (relation "measure (\<lambda>(w, bundleName, sinfPaths, sinfs, i, acc). length sinfPaths - i)") auto

declare manifest_loop.simps [simp del]

text \<open>Lines 18 to 48: the files for the sinfs, or the error thrown on the way.\<close>

definition inject_sinfs :: "world \<Rightarrow> Sinf list \<Rightarrow> string \<Rightarrow> (error + FileToInject list) \<times> call list" where
  "inject_sinfs w sinfs ipaPath =
     (case listEntries w ipaPath of
        (Inl e, tr0) \<Rightarrow> (Inl e, tr0)
      | (Inr entries, tr0) \<Rightarrow>
          (case readBundleName entries of
             Inl e \<Rightarrow> (Inl e, tr0)
           | Inr bundleName \<Rightarrow>
               (case readManifestPlist w ipaPath entries of
                  (Inl e, tr1) \<Rightarrow> (Inl e, tr0 @ tr1)
                | (Inr (Some sinfPaths), tr1) \<Rightarrow>
                    (manifest_loop w bundleName sinfPaths sinfs 0 [], tr0 @ tr1)
                | (Inr None, tr1) \<Rightarrow>
                    (case readInfoPlist w ipaPath entries of
                       (Inl e, tr2) \<Rightarrow> (Inl e, tr0 @ tr1 @ tr2)
                     | (Inr (Some bundleExecutable), tr2) \<Rightarrow>
                         (Inr (if length sinfs > 0
                               then [\<lparr>entryPath = ''Payload/'' @ bundleName @ ''.app/SC_Info/''
                                                   @ bundleExecutable @ ''.sinf'',
                                      data = from_base64 w (sinf (sinfs ! 0))\<rparr>]
                               else []),
                          tr0 @ tr1 @ tr2)
                     | (Inr None, tr2) \<Rightarrow> (Inl LocatorFailed, tr0 @ tr1 @ tr2)))))"

text \<open>
  Lines 53 to 67: what the metadata argument adds. \<^verbatim>\<open>if (iTunesMetadata)\<close> is false for
  an absent argument and for the empty string.
\<close>

definition inject_metadata :: "world \<Rightarrow> string option \<Rightarrow> FileToInject list" where
  "inject_metadata w iTunesMetadata =
     (case iTunesMetadata of
        None \<Rightarrow> []
      | Some s \<Rightarrow>
          if s = [] then []
          else
            (let xmlBuffer = from_base64 w s;
                 xmlString = utf8_toString w xmlBuffer;
                 metadataBuffer =
                   (case plist_parse w xmlString of
                      None \<Rightarrow> xmlBuffer
                    | Some parsed \<Rightarrow>
                        (case bplistCreator w parsed of
                           None \<Rightarrow> xmlBuffer
                         | Some b \<Rightarrow> b))
             in [\<lparr>entryPath = ''iTunesMetadata.plist'', data = metadataBuffer\<rparr>]))"

text \<open>\<^verbatim>\<open>filesToInject\<close> as it stands at line 69.\<close>

definition filesToInject ::
  "world \<Rightarrow> Sinf list \<Rightarrow> string \<Rightarrow> string option \<Rightarrow> (error + FileToInject list) \<times> call list" where
  "filesToInject w sinfs ipaPath iTunesMetadata =
     (case inject_sinfs w sinfs ipaPath of
        (Inl e, tr) \<Rightarrow> (Inl e, tr)
      | (Inr files, tr) \<Rightarrow> (Inr (files @ inject_metadata w iTunesMetadata), tr))"

definition inject ::
  "world \<Rightarrow> Sinf list \<Rightarrow> string \<Rightarrow> string option \<Rightarrow> (error + unit) \<times> call list" where
  "inject w sinfs ipaPath iTunesMetadata =
     (case filesToInject w sinfs ipaPath iTunesMetadata of
        (Inl e, tr) \<Rightarrow> (Inl e, tr)
      | (Inr files, tr) \<Rightarrow>
          if length files > 0
          then (case addFilesToZip w ipaPath files of (r, tr') \<Rightarrow> (r, tr @ tr'))
          else (Inr (), tr))"

section \<open>Predicates used in the statements\<close>

text \<open>
  The guard of \<^verbatim>\<open>addFilesToZip\<close> for one file: its destination, resolved against the
  staging directory, starts with the resolved staging directory followed by a slash.
\<close>

definition inside_staging :: "world \<Rightarrow> string \<Rightarrow> FileToInject \<Rightarrow> bool" where
  "inside_staging w tmpDir file =
     str_startsWith (path_resolve (cwd w) [tmpDir, entryPath file])
                    (path_resolve (cwd w) [tmpDir] @ ''/'')"

text \<open>The two calls that stage one file.\<close>

definition stage_calls :: "world \<Rightarrow> string \<Rightarrow> FileToInject \<Rightarrow> call list" where
  "stage_calls w tmpDir file =
     [Mkdir (path_dirname (path_resolve (cwd w) [tmpDir, entryPath file])),
      WriteFile (path_resolve (cwd w) [tmpDir, entryPath file]) (data file)]"

text \<open>
  Every call of the list succeeds, each after the calls \<open>tr\<close> and those before it in the
  list.
\<close>

fun all_succeed :: "world \<Rightarrow> call list \<Rightarrow> call list \<Rightarrow> bool" where
  "all_succeed w tr [] = True"
| "all_succeed w tr (c # cs) = (succeeds w tr c \<and> all_succeed w (tr @ [c]) cs)"

text \<open>The test \<^verbatim>\<open>readBundleName\<close> and \<^verbatim>\<open>readInfoPlist\<close> make on an entry path.\<close>

definition is_info_entry :: "string \<Rightarrow> bool" where
  "is_info_entry entry =
     (str_includes entry ''.app/Info.plist'' \<and> \<not> str_includes entry ''/Watch/'')"

text \<open>The test \<^verbatim>\<open>readManifestPlist\<close> makes on an entry path.\<close>

definition is_manifest_entry :: "string \<Rightarrow> bool" where
  "is_manifest_entry entry = str_endsWith entry ''.app/SC_Info/Manifest.plist''"

text \<open>The calls \<^verbatim>\<open>listEntries\<close> and \<^verbatim>\<open>readEntry\<close> make.\<close>

definition list_call :: "string \<Rightarrow> call" where
  "list_call ipaPath = ExecFile ''unzip'' [''-l'', ''--'', ipaPath] None"

definition read_call :: "string \<Rightarrow> string \<Rightarrow> call" where
  "read_call ipaPath entry = ExecFile ''unzip'' [''-p'', ''--'', ipaPath, entry] None"

text \<open>
  The spec's words, for comparison with the code: the name in the pattern
  \<^verbatim>\<open>.../<Name>.app/Info.plist\<close> is the component right before a last component
  \<^verbatim>\<open>Info.plist\<close>, without its \<^verbatim>\<open>.app\<close>; an entry lies under the bundle \<open>name\<close> when its
  path has the component \<^verbatim>\<open><name>.app\<close>; the binary-plist magic header is the eight
  bytes of \<^verbatim>\<open>bplist00\<close>.
\<close>

definition spec_pattern_name :: "string \<Rightarrow> string option" where
  "spec_pattern_name entry =
     (let cs = str_split entry CHR ''/'' in
      if length cs \<ge> 2 \<and> last cs = ''Info.plist'' \<and> suffix ''.app'' (last (butlast cs))
      then Some (take (length (last (butlast cs)) - 4) (last (butlast cs)))
      else None)"

definition spec_under_bundle :: "string \<Rightarrow> string \<Rightarrow> bool" where
  "spec_under_bundle name entry = (name @ ''.app'' \<in> set (str_split entry CHR ''/''))"

text \<open>
  The spec's words, for comparison with the code: a valid XML-plist text holds a
  \<^verbatim>\<open>plist\<close> element, so both its opening and its closing tag occur in the text. A text
  that fails this test is not a valid XML plist.
\<close>

definition spec_has_plist_element :: "string \<Rightarrow> bool" where
  "spec_has_plist_element s = (str_includes s ''<plist'' \<and> str_includes s ''</plist>'')"

text \<open>The bytes of an ASCII text.\<close>

definition ascii :: "string \<Rightarrow> Buffer" where
  "ascii s = map of_char s"

definition bplist_magic :: Buffer where
  "bplist_magic = ascii ''bplist00''"

section \<open>Example worlds\<close>

text \<open>
  What \<^verbatim>\<open>unzip -l\<close> prints for an archive with the given entry names: a header, one
  line per entry with its length, date and time, and a footer.
\<close>

definition listing_text :: "string list \<Rightarrow> string" where
  "listing_text names =
     ''Archive:  app.ipa'' @ [CHR 0x0A] @
     ''  Length      Date    Time    Name'' @ [CHR 0x0A] @
     ''---------  ---------- -----   ----'' @ [CHR 0x0A] @
     concat (map (\<lambda>n. ''     1234  01-31-2024 09:30   '' @ n @ [CHR 0x0A]) names) @
     ''---------                     -------'' @ [CHR 0x0A] @
     ''     1234                     files'' @ [CHR 0x0A]"

text \<open>One character per byte: the UTF-8 decoding of ASCII bytes.\<close>

definition latin1 :: "Buffer \<Rightarrow> string" where
  "latin1 b = map (\<lambda>x. char_of (unat x)) b"

text \<open>
  The archive of the spec's end-to-end scenario: a bundle \<^verbatim>\<open>Foo.app\<close> with a manifest
  listing one path. The base64 texts are those of \<^verbatim>\<open>sinf0\<close>, \<^verbatim>\<open>sinf1\<close>,
  \<^verbatim>\<open><plist><dict/></plist>\<close> and \<^verbatim>\<open>not a plist\<close>; no call fails. The template literals
  of the examples hold strings only, so \<open>to_String\<close> is never consulted.
\<close>

definition example_world :: world where
  "example_world =
     \<lparr>unzip_list = (\<lambda>ipa. Some (listing_text [''Payload/Foo.app/Info.plist'',
                                                ''Payload/Foo.app/SC_Info/Manifest.plist'',
                                                ''Payload/Foo.app/SC_Info/Foo''])),
      unzip_pipe = (\<lambda>ipa e.
        if e = ''Payload/Foo.app/SC_Info/Manifest.plist'' then Some (ascii ''bplist00 manifest'')
        else if e = ''Payload/Foo.app/Info.plist'' then Some (ascii ''bplist00 info'')
        else None),
      bplist_parseBuffer = (\<lambda>b.
        if b = ascii ''bplist00 manifest''
        then Some [PDict [(''SinfPaths'', PArray [PString ''SC_Info/Foo.sinf''])]]
        else if b = ascii ''bplist00 info''
        then Some [PDict [(''CFBundleExecutable'', PString ''Foo'')]]
        else None),
      plist_parse = (\<lambda>s. if s = ''<plist><dict/></plist>'' then Some (PDict []) else None),
      bplistCreator = (\<lambda>v. if v = PDict [] then Some (ascii ''bplist00 empty dict'') else None),
      from_base64 = (\<lambda>s.
        if s = ''c2luZjA='' then ascii ''sinf0''
        else if s = ''c2luZjE='' then ascii ''sinf1''
        else if s = ''PHBsaXN0PjxkaWN0Lz48L3BsaXN0Pg=='' then ascii ''<plist><dict/></plist>''
        else if s = ''bm90IGEgcGxpc3Q='' then ascii ''not a plist''
        else []),
      utf8_toString = latin1,
      to_String = (\<lambda>v. None),
      mkdtemp = Some ''/tmp/sinf-Ab12Cd'',
      cwd = ''/srv/backend'',
      succeeds = (\<lambda>tr c. True)\<rparr>"

text \<open>The same archive without its manifest: the \<^verbatim>\<open>Info.plist\<close> fallback applies.\<close>

definition fallback_world :: world where
  "fallback_world =
     example_world\<lparr>unzip_list := (\<lambda>ipa. Some (listing_text [''Payload/Foo.app/Info.plist'',
                                                              ''Payload/Foo.app/SC_Info/Foo'']))\<rparr>"

text \<open>An archive that holds an entry named \<^verbatim>\<open>../../etc/passwd\<close>.\<close>

definition slip_world :: world where
  "slip_world =
     example_world\<lparr>unzip_pipe := (\<lambda>ipa e.
        if e = ''../../etc/passwd'' then Some (ascii ''root:x:0:0'') else None)\<rparr>"

text \<open>
  An archive with a second bundle directory: the only manifest lies under \<^verbatim>\<open>Bar.app\<close>,
  the only \<^verbatim>\<open>Info.plist\<close> under \<^verbatim>\<open>Foo.app\<close>.
\<close>

definition two_bundle_world :: world where
  "two_bundle_world =
     example_world\<lparr>
       unzip_list := (\<lambda>ipa. Some (listing_text [''Payload/Foo.app/Info.plist'',
                                                  ''Payload/Bar.app/SC_Info/Manifest.plist''])),
       unzip_pipe := (\<lambda>ipa e.
         if e = ''Payload/Bar.app/SC_Info/Manifest.plist'' then Some (ascii ''bplist00 manifest'')
         else if e = ''Payload/Foo.app/Info.plist'' then Some (ascii ''bplist00 info'')
         else None)\<rparr>"

text \<open>
  The example archive with a manifest of three paths, and with a manifest whose tree has
  no \<^verbatim>\<open>SinfPaths\<close>.
\<close>

definition three_path_world :: world where
  "three_path_world =
     example_world\<lparr>bplist_parseBuffer := (\<lambda>b.
        if b = ascii ''bplist00 manifest''
        then Some [PDict [(''SinfPaths'',
                           PArray [PString ''SC_Info/Foo.sinf'',
                                   PString ''PlugIns/Ext.appex/SC_Info/Ext.sinf'',
                                   PString ''Frameworks/Lib.framework/SC_Info/Lib.sinf''])]]
        else None)\<rparr>"

definition no_paths_world :: world where
  "no_paths_world =
     example_world\<lparr>unzip_pipe := (\<lambda>ipa e.
        if e = ''Payload/Foo.app/SC_Info/Manifest.plist'' then Some (ascii ''bplist00 info'')
        else if e = ''Payload/Foo.app/Info.plist'' then Some (ascii ''bplist00 info'')
        else None)\<rparr>"

text \<open>
  A world whose XML parser accepts the text \<^verbatim>\<open>bplist00<plist><dict/></plist>\<close>; its
  binary parser, that of the example world, rejects the same bytes.
\<close>

definition xml_after_magic_world :: world where
  "xml_after_magic_world =
     example_world\<lparr>plist_parse := (\<lambda>s.
        if s = ''bplist00<plist><dict/></plist>'' then Some (PDict []) else None)\<rparr>"

text \<open>
  A world whose XML parser accepts the text \<^verbatim>\<open>this is not a plist <plist\<close> (an unclosed
  \<^verbatim>\<open>plist\<close> tag after stray text) and returns the empty array for it, as for an empty
  \<^verbatim>\<open>plist\<close> element; the binary encoder gives the binary plist of the empty array.
\<close>

definition empty_array_bplist :: Buffer where
  "empty_array_bplist =
     ascii ''bplist00'' @
     [0xA0, 0x08,
      0, 0, 0, 0, 0, 0, 1, 1,
      0, 0, 0, 0, 0, 0, 0, 1,
      0, 0, 0, 0, 0, 0, 0, 0,
      0, 0, 0, 0, 0, 0, 0, 9]"

definition lenient_parser_world :: world where
  "lenient_parser_world =
     example_world\<lparr>
       from_base64 := (\<lambda>s.
         if s = ''dGhpcyBpcyBub3QgYSBwbGlzdCA8cGxpc3Q=''
         then ascii ''this is not a plist <plist'' else []),
       plist_parse := (\<lambda>s.
         if s = ''this is not a plist <plist'' then Some (PArray []) else None),
       bplistCreator := (\<lambda>v. if v = PArray [] then Some empty_array_bplist else None)\<rparr>"

section \<open>Helper lemmas\<close>

lemma str_split_not_Nil: "str_split s sep \<noteq> []"
  by (induction s) (auto split: list.splits)

lemma inject_metadata_absent:
  "inject_metadata w None = []" "inject_metadata w (Some []) = []"
  by (simp_all add: inject_metadata_def)

lemma listEntries_eq:
  "fst (listEntries w ipaPath) = r \<Longrightarrow> listEntries w ipaPath = (r, [list_call ipaPath])"
  by (auto simp: listEntries_def list_call_def)

lemma readManifestPlist_calls:
  "snd (readManifestPlist w ipaPath entries) =
     (case find is_manifest_entry entries of None \<Rightarrow> [] | Some e \<Rightarrow> [read_call ipaPath e])"
  by (induction entries)
     (auto simp: is_manifest_entry_def readEntry_def read_call_def Let_def
           split: sum.splits option.splits PropertyValue.splits prod.splits)

lemma readInfoPlist_calls:
  "snd (readInfoPlist w ipaPath entries) =
     (case find is_info_entry entries of None \<Rightarrow> [] | Some e \<Rightarrow> [read_call ipaPath e])"
  by (induction entries)
     (auto simp: is_info_entry_def readEntry_def read_call_def Let_def
           split: sum.splits option.splits PropertyValue.splits prod.splits)

lemma readManifestPlist_unzip:
  "c \<in> set (snd (readManifestPlist w ipaPath entries)) \<Longrightarrow> \<exists>args. c = ExecFile ''unzip'' args None"
  by (auto simp: readManifestPlist_calls read_call_def split: option.splits)

lemma readInfoPlist_unzip:
  "c \<in> set (snd (readInfoPlist w ipaPath entries)) \<Longrightarrow> \<exists>args. c = ExecFile ''unzip'' args None"
  by (auto simp: readInfoPlist_calls read_call_def split: option.splits)

lemma inject_sinfs_trace:
  "snd (inject_sinfs w sinfs ipaPath) = [list_call ipaPath] \<or>
   (\<exists>entries. snd (inject_sinfs w sinfs ipaPath) =
        list_call ipaPath # snd (readManifestPlist w ipaPath entries)) \<or>
   (\<exists>entries. snd (inject_sinfs w sinfs ipaPath) =
        list_call ipaPath # snd (readManifestPlist w ipaPath entries) @ snd (readInfoPlist w ipaPath entries))"
proof (cases "fst (listEntries w ipaPath)")
  case (Inl e)
  from listEntries_eq[OF this] show ?thesis by (simp add: inject_sinfs_def)
next
  case (Inr entries)
  note l = listEntries_eq[OF Inr]
  show ?thesis
  proof (cases "readBundleName entries")
    case (Inl e)
    with l show ?thesis by (simp add: inject_sinfs_def)
  next
    case (Inr bundleName)
    note b = Inr
    obtain r1 tr1 where m: "readManifestPlist w ipaPath entries = (r1, tr1)"
      by (cases "readManifestPlist w ipaPath entries")
    obtain r2 tr2 where i: "readInfoPlist w ipaPath entries = (r2, tr2)"
      by (cases "readInfoPlist w ipaPath entries")
    have "snd (inject_sinfs w sinfs ipaPath) = list_call ipaPath # tr1 \<or>
          snd (inject_sinfs w sinfs ipaPath) = list_call ipaPath # tr1 @ tr2"
      using l b m i
      by (simp add: inject_sinfs_def split: sum.split option.split)
    then show ?thesis
      using m i by (metis snd_conv)
  qed
qed

lemma inject_sinfs_calls:
  "c \<in> set (snd (inject_sinfs w sinfs ipaPath)) \<Longrightarrow> \<exists>args. c = ExecFile ''unzip'' args None"
  using inject_sinfs_trace[of w sinfs ipaPath]
  by (auto simp: list_call_def dest: readManifestPlist_unzip readInfoPlist_unzip)

lemma filesToInject_calls:
  "snd (filesToInject w sinfs ipaPath meta) = snd (inject_sinfs w sinfs ipaPath)"
  by (cases "inject_sinfs w sinfs ipaPath") (simp add: filesToInject_def split: sum.split)

lemma manifest_loop_eq:
  assumes "\<forall>k. i \<le> k \<and> k < min (length sinfPaths) (length sinfs)
             \<longrightarrow> template w (sinfPaths ! k) = Some (p k)"
  shows "manifest_loop w bundleName sinfPaths sinfs i acc =
     Inr (acc @ map (\<lambda>k. \<lparr>entryPath = ''Payload/'' @ bundleName @ ''.app/'' @ p k,
                            data = from_base64 w (sinf (sinfs ! k))\<rparr>)
                    [i..<min (length sinfPaths) (length sinfs)])"
  using assms
proof (induction w bundleName sinfPaths sinfs i acc rule: manifest_loop.induct)
  case (1 w bundleName sinfPaths sinfs i acc)
  show ?case
  proof (cases "i < length sinfPaths")
    case False
    then show ?thesis by (subst manifest_loop.simps) simp
  next
    case True
    note lt = True
    show ?thesis
    proof (cases "length sinfs \<le> i")
      case True
      with lt "1.prems" have "manifest_loop w bundleName sinfPaths sinfs (i + 1) acc =
              Inr (acc @ map (\<lambda>k. \<lparr>entryPath = ''Payload/'' @ bundleName @ ''.app/'' @ p k,
                                     data = from_base64 w (sinf (sinfs ! k))\<rparr>)
                             [i + 1..<min (length sinfPaths) (length sinfs)])"
        by (intro "1.IH"(1)) simp_all
      with lt True show ?thesis by (subst manifest_loop.simps) simp
    next
      case False
      with lt have t: "template w (sinfPaths ! i) = Some (p i)"
        using "1.prems" by simp
      have u: "[i..<min (length sinfPaths) (length sinfs)] =
                 i # [i + 1..<min (length sinfPaths) (length sinfs)]"
        using lt False by (simp add: upt_conv_Cons)
      have "manifest_loop w bundleName sinfPaths sinfs (i + 1)
              (acc @ [\<lparr>entryPath = ''Payload/'' @ bundleName @ ''.app/'' @ p i,
                       data = from_base64 w (sinf (sinfs ! i))\<rparr>]) =
            Inr ((acc @ [\<lparr>entryPath = ''Payload/'' @ bundleName @ ''.app/'' @ p i,
                          data = from_base64 w (sinf (sinfs ! i))\<rparr>]) @
                 map (\<lambda>k. \<lparr>entryPath = ''Payload/'' @ bundleName @ ''.app/'' @ p k,
                            data = from_base64 w (sinf (sinfs ! k))\<rparr>)
                     [i + 1..<min (length sinfPaths) (length sinfs)])"
        using lt False t "1.prems" by (intro "1.IH"(2)) simp_all
      with lt False t u show ?thesis by (subst manifest_loop.simps) simp
    qed
  qed
qed

lemma manifest_loop_strings:
  "manifest_loop w bundleName (map PString paths) sinfs 0 [] =
     Inr (map (\<lambda>k. \<lparr>entryPath = ''Payload/'' @ bundleName @ ''.app/'' @ paths ! k,
                      data = from_base64 w (sinf (sinfs ! k))\<rparr>)
              [0..<min (length paths) (length sinfs)])"
  using manifest_loop_eq[of 0 "map PString paths" sinfs w "\<lambda>k. paths ! k" bundleName "[]"]
  by simp

lemma manifest_loop_no_sinfs:
  "manifest_loop w bundleName sinfPaths [] 0 [] = Inr []"
  using manifest_loop_eq[of 0 sinfPaths "[]" w "\<lambda>k. []" bundleName "[]"] by simp

lemma manifest_loop_throws:
  assumes "sinfPaths \<noteq> []" and "sinfs \<noteq> []" and "template w (sinfPaths ! 0) = None"
  shows "manifest_loop w bundleName sinfPaths sinfs 0 [] = Inl TypeError"
  using assms by (subst manifest_loop.simps) simp

lemma manifest_loop_under_Payload:
  "manifest_loop w bundleName sinfPaths sinfs i acc = Inr files \<Longrightarrow>
   \<forall>f\<in>set acc. prefix ''Payload/'' (entryPath f) \<Longrightarrow>
   \<forall>f\<in>set files. prefix ''Payload/'' (entryPath f)"
proof (induction w bundleName sinfPaths sinfs i acc rule: manifest_loop.induct)
  case (1 w bundleName sinfPaths sinfs i acc)
  show ?case
  proof (cases "i < length sinfPaths")
    case False
    with "1.prems" show ?thesis by (subst (asm) manifest_loop.simps) simp
  next
    case True
    note lt = True
    show ?thesis
    proof (cases "length sinfs \<le> i")
      case True
      with lt "1.prems"(1)
      have "manifest_loop w bundleName sinfPaths sinfs (i + 1) acc = Inr files"
        by (subst (asm) manifest_loop.simps) simp
      with lt True "1.prems"(2) show ?thesis by (intro "1.IH"(1)) simp_all
    next
      case False
      note ge = False
      show ?thesis
      proof (cases "template w (sinfPaths ! i)")
        case None
        with lt ge "1.prems"(1) show ?thesis by (subst (asm) manifest_loop.simps) simp
      next
        case (Some sinfPath)
        with lt ge "1.prems"(1)
        have r: "manifest_loop w bundleName sinfPaths sinfs (i + 1)
                (acc @ [\<lparr>entryPath = ''Payload/'' @ bundleName @ ''.app/'' @ sinfPath,
                         data = from_base64 w (sinf (sinfs ! i))\<rparr>]) = Inr files"
          by (subst (asm) manifest_loop.simps) simp
        have "\<forall>f\<in>set (acc @ [\<lparr>entryPath = ''Payload/'' @ bundleName @ ''.app/'' @ sinfPath,
                         data = from_base64 w (sinf (sinfs ! i))\<rparr>]). prefix ''Payload/'' (entryPath f)"
          using "1.prems"(2) by (auto simp: prefix_def)
        with lt ge Some r show ?thesis by (intro "1.IH"(2)) simp_all
      qed
    qed
  qed
qed

lemma inject_sinfs_no_sinfs:
  "fst (inject_sinfs w [] ipaPath) = Inr files \<Longrightarrow> files = []"
  by (auto simp: inject_sinfs_def manifest_loop_no_sinfs split: prod.splits sum.splits option.splits)

lemma inject_sinfs_under_Payload:
  assumes "inject_sinfs w sinfs ipaPath = (Inr files, tr)"
  shows "\<forall>f\<in>set files. prefix ''Payload/'' (entryPath f)"
proof (cases "fst (listEntries w ipaPath)")
  case (Inl e)
  from listEntries_eq[OF this] assms show ?thesis by (simp add: inject_sinfs_def)
next
  case (Inr entries)
  note l = listEntries_eq[OF Inr]
  show ?thesis
  proof (cases "readBundleName entries")
    case (Inl e)
    with l assms show ?thesis by (simp add: inject_sinfs_def)
  next
    case (Inr bundleName)
    note b = Inr
    obtain r1 tr1 where m: "readManifestPlist w ipaPath entries = (r1, tr1)"
      by (cases "readManifestPlist w ipaPath entries")
    show ?thesis
    proof (cases r1)
      case (Inl e)
      with l b m assms show ?thesis by (simp add: inject_sinfs_def)
    next
      case (Inr mo)
      note r = Inr
      show ?thesis
      proof (cases mo)
        case (Some sinfPaths)
        with l b m r assms
        have "manifest_loop w bundleName sinfPaths sinfs 0 [] = Inr files"
          by (simp add: inject_sinfs_def)
        from manifest_loop_under_Payload[OF this] show ?thesis by simp
      next
        case None
        obtain r2 tr2 where i: "readInfoPlist w ipaPath entries = (r2, tr2)"
          by (cases "readInfoPlist w ipaPath entries")
        from l b m r None i assms show ?thesis
          by (auto simp: inject_sinfs_def prefix_def split: sum.splits option.splits if_splits)
      qed
    qed
  qed
qed

lemma under_Payload_not_metadata:
  "prefix ''Payload/'' p \<Longrightarrow> p \<noteq> ''iTunesMetadata.plist''"
  by (auto simp: prefix_def)

lemma filesToInject_empty_string:
  "filesToInject w sinfs ipaPath (Some []) = inject_sinfs w sinfs ipaPath"
proof (cases "inject_sinfs w sinfs ipaPath")
  case (Pair r tr)
  then show ?thesis
    by (cases r) (simp_all add: filesToInject_def inject_metadata_absent)
qed

lemma inject_metadata_present:
  "s \<noteq> [] \<Longrightarrow>
   inject_metadata w (Some s) =
     [\<lparr>entryPath = ''iTunesMetadata.plist'',
       data = (case plist_parse w (utf8_toString w (from_base64 w s)) of
                 None \<Rightarrow> from_base64 w s
               | Some parsed \<Rightarrow>
                   (case bplistCreator w parsed of
                      None \<Rightarrow> from_base64 w s
                    | Some b \<Rightarrow> b))\<rparr>]"
  by (simp add: inject_metadata_def Let_def)

lemma filesToInject_split:
  "filesToInject w sinfs ipaPath meta = (Inr files, tr) \<Longrightarrow>
   \<exists>drm. inject_sinfs w sinfs ipaPath = (Inr drm, tr) \<and> files = drm @ inject_metadata w meta"
  by (cases "inject_sinfs w sinfs ipaPath") (auto simp: filesToInject_def split: sum.splits)

lemma inject_sinfs_manifest:
  assumes "fst (listEntries w ipaPath) = Inr entries"
    and "readBundleName entries = Inr bundleName"
    and "readManifestPlist w ipaPath entries = (Inr (Some sinfPaths), tr1)"
  shows "inject_sinfs w sinfs ipaPath =
     (manifest_loop w bundleName sinfPaths sinfs 0 [], list_call ipaPath # tr1)"
  using listEntries_eq[OF assms(1)] assms(2,3) by (simp add: inject_sinfs_def)

lemma inject_sinfs_fallback:
  assumes "fst (listEntries w ipaPath) = Inr entries"
    and "readBundleName entries = Inr bundleName"
    and "readManifestPlist w ipaPath entries = (Inr None, tr1)"
    and "readInfoPlist w ipaPath entries = (Inr (Some bundleExecutable), tr2)"
  shows "inject_sinfs w sinfs ipaPath =
     (Inr (if length sinfs > 0
           then [\<lparr>entryPath = ''Payload/'' @ bundleName @ ''.app/SC_Info/'' @ bundleExecutable @ ''.sinf'',
                  data = from_base64 w (sinf (sinfs ! 0))\<rparr>]
           else []),
      list_call ipaPath # tr1 @ tr2)"
  using listEntries_eq[OF assms(1)] assms(2,3,4) by (simp add: inject_sinfs_def)

lemma js_get_truthy: "js_get v k = Some x \<Longrightarrow> truthy v"
  by (cases v) simp_all

lemma readManifestPlist_step:
  assumes "is_manifest_entry entry"
  shows "readManifestPlist w ipaPath (entry # entries) =
     (case unzip_pipe w ipaPath entry of
        None \<Rightarrow> Inl ArchiveToolFailure
      | Some dat \<Rightarrow>
          Inr (case js_get (parsePlistBuffer w dat) ''SinfPaths'' of
                 Some (PArray sinfPaths) \<Rightarrow> Some sinfPaths
               | _ \<Rightarrow> None),
      [read_call ipaPath entry])"
proof -
  have m: "str_endsWith entry ''.app/SC_Info/Manifest.plist''"
    using assms by (simp add: is_manifest_entry_def)
  show ?thesis
  proof (cases "unzip_pipe w ipaPath entry")
    case None
    with m show ?thesis by (simp add: readEntry_def read_call_def)
  next
    case (Some dat)
    note u = Some
    show ?thesis
    proof (cases "js_get (parsePlistBuffer w dat) ''SinfPaths''")
      case None
      with m u show ?thesis by (simp add: readEntry_def read_call_def Let_def)
    next
      case (Some v)
      then have "truthy (parsePlistBuffer w dat)" by (rule js_get_truthy)
      with m u Some show ?thesis
        by (cases v) (simp_all add: readEntry_def read_call_def Let_def)
    qed
  qed
qed

lemma readManifestPlist_find:
  "readManifestPlist w ipaPath entries =
     (case find is_manifest_entry entries of
        None \<Rightarrow> (Inr None, [])
      | Some e \<Rightarrow>
          (case unzip_pipe w ipaPath e of
             None \<Rightarrow> Inl ArchiveToolFailure
           | Some dat \<Rightarrow>
               Inr (case js_get (parsePlistBuffer w dat) ''SinfPaths'' of
                      Some (PArray sinfPaths) \<Rightarrow> Some sinfPaths
                    | _ \<Rightarrow> None),
           [read_call ipaPath e]))"
proof (induction entries)
  case Nil
  show ?case by simp
next
  case (Cons entry entries)
  show ?case
  proof (cases "is_manifest_entry entry")
    case True
    then show ?thesis by (simp del: readManifestPlist.simps add: readManifestPlist_step)
  next
    case False
    then have "readManifestPlist w ipaPath (entry # entries) = readManifestPlist w ipaPath entries"
      by (simp add: is_manifest_entry_def)
    with False Cons.IH show ?thesis by simp
  qed
qed

lemma readManifestPlist_Some:
  assumes "readManifestPlist w ipaPath entries = (Inr (Some sinfPaths), tr)"
  shows "\<exists>e dat. find is_manifest_entry entries = Some e \<and> tr = [read_call ipaPath e] \<and>
                 unzip_pipe w ipaPath e = Some dat \<and>
                 js_get (parsePlistBuffer w dat) ''SinfPaths'' = Some (PArray sinfPaths)"
  using assms unfolding readManifestPlist_find
  by (auto split: option.splits PropertyValue.splits)

lemma str_split_sep:
  "str_split (xs @ sep # ys) sep = str_split xs sep @ str_split ys sep"
  by (induction xs) (auto simp: str_split_not_Nil split: list.splits)

lemma str_split_no_sep:
  "sep \<notin> set ys \<Longrightarrow> str_split ys sep = [ys]"
  by (induction ys) auto

lemma str_split_append_no_sep:
  "sep \<notin> set ys \<Longrightarrow>
   str_split (xs @ ys) sep = butlast (str_split xs sep) @ [last (str_split xs sep) @ ys]"
proof (induction xs)
  case Nil
  then show ?case by (simp add: str_split_no_sep)
next
  case (Cons c cs)
  then show ?case
    by (cases "str_split cs sep") (auto simp: str_split_not_Nil)
qed

lemma info_entry_has_app_component:
  assumes "str_includes entry ''.app/Info.plist''"
  shows "\<exists>c\<in>set (str_split entry CHR ''/''). str_endsWith c ''.app''"
proof -
  from assms obtain ps ss where e: "entry = ps @ ''.app/Info.plist'' @ ss"
    by (auto simp: str_includes_def sublist_def)
  then have "entry = (ps @ ''.app'') @ CHR ''/'' # (''Info.plist'' @ ss)" by simp
  then have "str_split entry CHR ''/'' =
               str_split (ps @ ''.app'') CHR ''/'' @ str_split (''Info.plist'' @ ss) CHR ''/''"
    by (simp only: str_split_sep)
  moreover have "str_split (ps @ ''.app'') CHR ''/'' =
      butlast (str_split ps CHR ''/'') @ [last (str_split ps CHR ''/'') @ ''.app'']"
    by (rule str_split_append_no_sep) simp
  ultimately have "last (str_split ps CHR ''/'') @ ''.app'' \<in> set (str_split entry CHR ''/'')"
    by simp
  moreover have "str_endsWith (last (str_split ps CHR ''/'') @ ''.app'') ''.app''"
    by (auto simp: str_endsWith_def suffix_def)
  ultimately show ?thesis by blast
qed

lemma first_app_component_None:
  "first_app_component cs = None \<longleftrightarrow> (\<forall>c\<in>set cs. \<not> str_endsWith c ''.app'')"
  by (induction cs) auto

lemma first_app_component_first:
  "\<forall>c\<in>set cs. \<not> str_endsWith c ''.app'' \<Longrightarrow> str_endsWith c ''.app'' \<Longrightarrow>
   first_app_component (cs @ c # cs') = Some (str_replace c ''.app'' [])"
  by (induction cs) auto

lemma not_prefix_app:
  assumes "\<not> sublist ''.app'' (c # cs)"
  shows "\<not> prefix ''.app'' ((c # cs) @ ''.app'')"
proof
  assume "prefix ''.app'' ((c # cs) @ ''.app'')"
  then consider "prefix ''.app'' (c # cs)"
    | us where "''.app'' = (c # cs) @ us" "prefix us ''.app''"
    by (auto simp: prefix_append)
  then show False
  proof cases
    case 1
    then show ?thesis using assms by (auto dest: prefix_imp_sublist)
  next
    case 2
    then show ?thesis
      using assms by (auto simp: Cons_eq_append_conv append_eq_Cons_conv prefix_Cons)
  qed
qed

lemma str_replace_app_suffix:
  "\<not> sublist ''.app'' name \<Longrightarrow> str_replace (name @ ''.app'') ''.app'' [] = name"
proof (induction name)
  case Nil
  show ?case by simp
next
  case (Cons c cs)
  from Cons.prems have "\<not> sublist ''.app'' cs"
    by (auto simp: sublist_Cons_right)
  with Cons.IH have ih: "str_replace (cs @ ''.app'') ''.app'' [] = cs" by simp
  have np: "\<not> prefix ''.app'' ((c # cs) @ ''.app'')"
    by (rule not_prefix_app[OF Cons.prems])
  have "str_replace ((c # cs) @ ''.app'') ''.app'' [] = c # str_replace (cs @ ''.app'') ''.app'' []"
    using np by (simp only: append_Cons str_replace.simps if_False)
  then show ?case by (simp only: ih)
qed

lemma readBundleName_none:
  "\<forall>e\<in>set entries. \<not> is_info_entry e \<Longrightarrow> readBundleName entries = Inl BundleNotFound"
  by (induction entries) (auto simp: is_info_entry_def)

lemma readBundleName_first:
  assumes "\<forall>x\<in>set pre. \<not> is_info_entry x" and "is_info_entry e"
    and "first_app_component (str_split e CHR ''/'') = Some n"
  shows "readBundleName (pre @ e # post) = Inr n"
  using assms by (induction pre) (auto simp: is_info_entry_def)

lemma info_entry_component:
  assumes "is_info_entry e"
  shows "\<exists>n. first_app_component (str_split e CHR ''/'') = Some n"
proof -
  from assms have "\<exists>c\<in>set (str_split e CHR ''/''). str_endsWith c ''.app''"
    by (simp add: is_info_entry_def info_entry_has_app_component)
  then have "first_app_component (str_split e CHR ''/'') \<noteq> None"
    by (simp add: first_app_component_None)
  then show ?thesis by blast
qed

lemma readBundleName_found:
  assumes "e \<in> set entries" and "is_info_entry e"
  shows "\<exists>n. readBundleName entries = Inr n"
proof -
  from assms have "\<exists>x\<in>set entries. is_info_entry x" by blast
  then obtain pre x post where s: "entries = pre @ x # post" and x: "is_info_entry x"
    and p: "\<forall>y\<in>set pre. \<not> is_info_entry y"
    using split_list_first_prop[of entries is_info_entry] by blast
  from info_entry_component[OF x] obtain n
    where "first_app_component (str_split x CHR ''/'') = Some n" by blast
  from readBundleName_first[OF p x this] s show ?thesis by blast
qed

lemma all_succeed_append:
  "all_succeed w tr (xs @ ys) = (all_succeed w tr xs \<and> all_succeed w (tr @ xs) ys)"
  by (induction xs arbitrary: tr) auto

lemma stage_files_unsafe:
  assumes "\<forall>f\<in>set pre. inside_staging w tmpDir f" and "\<not> inside_staging w tmpDir first"
  shows "\<exists>tr' e.
           stage_files w tmpDir (path_resolve (cwd w) [tmpDir]) (pre @ first # post) tr rel =
             (Inl e, tr @ tr') \<and>
           prefix tr' (concat (map (stage_calls w tmpDir) pre)) \<and>
           (all_succeed w tr (concat (map (stage_calls w tmpDir) pre)) \<longrightarrow>
              e = UnsafePath (entryPath first) \<and> tr' = concat (map (stage_calls w tmpDir) pre))"
  using assms
proof (induction pre arbitrary: tr rel)
  case Nil
  then show ?case by (simp add: inside_staging_def)
next
  case (Cons f pre)
  let ?full = "path_resolve (cwd w) [tmpDir, entryPath f]"
  let ?c1 = "Mkdir (path_dirname ?full)"
  let ?c2 = "WriteFile ?full (data f)"
  have sc: "stage_calls w tmpDir f = [?c1, ?c2]" by (simp add: stage_calls_def)
  from Cons.prems have g: "str_startsWith ?full (path_resolve (cwd w) [tmpDir] @ ''/'')"
    by (simp add: inside_staging_def)
  show ?case
  proof (cases "succeeds w tr ?c1")
    case False
    with g have "stage_files w tmpDir (path_resolve (cwd w) [tmpDir]) ((f # pre) @ first # post) tr rel
                 = (Inl FsFailure, tr @ [?c1])"
      by (simp add: Let_def)
    with False sc show ?thesis by simp
  next
    case True
    note s1 = True
    show ?thesis
    proof (cases "succeeds w (tr @ [?c1]) ?c2")
      case False
      with g s1 have "stage_files w tmpDir (path_resolve (cwd w) [tmpDir]) ((f # pre) @ first # post) tr rel
                 = (Inl FsFailure, tr @ [?c1, ?c2])"
        by (simp add: Let_def)
      with False sc show ?thesis by simp
    next
      case True
      with g s1 have st: "stage_files w tmpDir (path_resolve (cwd w) [tmpDir]) ((f # pre) @ first # post) tr rel
                 = stage_files w tmpDir (path_resolve (cwd w) [tmpDir]) (pre @ first # post)
                     (tr @ [?c1, ?c2]) (rel @ [entryPath f])"
        by (simp add: Let_def)
      from Cons.prems have p: "\<forall>f\<in>set pre. inside_staging w tmpDir f" by simp
      from Cons.IH[OF p Cons.prems(2), of "tr @ [?c1, ?c2]" "rel @ [entryPath f]"]
      obtain tr' e where
        r: "stage_files w tmpDir (path_resolve (cwd w) [tmpDir]) (pre @ first # post)
              (tr @ [?c1, ?c2]) (rel @ [entryPath f]) = (Inl e, (tr @ [?c1, ?c2]) @ tr')"
        and pf: "prefix tr' (concat (map (stage_calls w tmpDir) pre))"
        and ok: "all_succeed w (tr @ [?c1, ?c2]) (concat (map (stage_calls w tmpDir) pre)) \<longrightarrow>
              e = UnsafePath (entryPath first) \<and> tr' = concat (map (stage_calls w tmpDir) pre)"
        by blast
      have "stage_files w tmpDir (path_resolve (cwd w) [tmpDir]) ((f # pre) @ first # post) tr rel
              = (Inl e, tr @ ([?c1, ?c2] @ tr'))"
        using st r by simp
      moreover have "prefix ([?c1, ?c2] @ tr') (concat (map (stage_calls w tmpDir) (f # pre)))"
        using pf sc by simp
      moreover have "all_succeed w tr (concat (map (stage_calls w tmpDir) (f # pre))) \<longrightarrow>
              e = UnsafePath (entryPath first) \<and>
              [?c1, ?c2] @ tr' = concat (map (stage_calls w tmpDir) (f # pre))"
        using ok sc by simp
      ultimately show ?thesis by blast
    qed
  qed
qed

lemma stage_calls_members:
  assumes "c \<in> set (concat (map (stage_calls w tmpDir) pre))"
  shows "\<exists>f\<in>set pre. c = Mkdir (path_dirname (path_resolve (cwd w) [tmpDir, entryPath f])) \<or>
                      c = WriteFile (path_resolve (cwd w) [tmpDir, entryPath f]) (data f)"
  using assms by (auto simp: stage_calls_def)

lemma addFilesToZip_unsafe:
  assumes m: "mkdtemp w = Some tmpDir"
    and p: "\<forall>f\<in>set pre. inside_staging w tmpDir f" and u: "\<not> inside_staging w tmpDir first"
  shows "\<exists>tr' e.
           addFilesToZip w ipaPath (pre @ first # post) = (Inl e, Mkdtemp # tr' @ [Rm tmpDir]) \<and>
           prefix tr' (concat (map (stage_calls w tmpDir) pre)) \<and>
           (all_succeed w [Mkdtemp] (concat (map (stage_calls w tmpDir) pre) @ [Rm tmpDir]) \<longrightarrow>
              e = UnsafePath (entryPath first) \<and> tr' = concat (map (stage_calls w tmpDir) pre))"
proof -
  from stage_files_unsafe[OF p u, of post "[Mkdtemp]" "[]"]
  obtain tr' e where
    r: "stage_files w tmpDir (path_resolve (cwd w) [tmpDir]) (pre @ first # post) [Mkdtemp] [] =
          (Inl e, [Mkdtemp] @ tr')"
    and pf: "prefix tr' (concat (map (stage_calls w tmpDir) pre))"
    and ok: "all_succeed w [Mkdtemp] (concat (map (stage_calls w tmpDir) pre)) \<longrightarrow>
              e = UnsafePath (entryPath first) \<and> tr' = concat (map (stage_calls w tmpDir) pre)"
    by blast
  let ?e = "if succeeds w (Mkdtemp # tr') (Rm tmpDir) then e else FsFailure"
  have a: "addFilesToZip w ipaPath (pre @ first # post) = (Inl ?e, Mkdtemp # tr' @ [Rm tmpDir])"
    using m r by (simp add: addFilesToZip_def)
  have "all_succeed w [Mkdtemp] (concat (map (stage_calls w tmpDir) pre) @ [Rm tmpDir]) \<longrightarrow>
              ?e = UnsafePath (entryPath first) \<and> tr' = concat (map (stage_calls w tmpDir) pre)"
    using ok by (auto simp: all_succeed_append)
  with a pf show ?thesis by blast
qed

section \<open>C1: the traversal guard of addFilesToZip\<close>

text \<open>
  C1 says that every item whose destination path contains a parent-directory segment makes
  the operation fail with \<open>UnsafePath\<close>, with none of its bytes written and no archive
  update. The guard tests the resolved location, not the text of the path: in a batch that
  stages \<^verbatim>\<open>a/b\<close> and then \<^verbatim>\<open>a/../c\<close>, the second path resolves to \<^verbatim>\<open>c\<close> under the
  staging root, its bytes are written there, \<^verbatim>\<open>zip\<close> is run with both paths and the
  operation succeeds.
\<close>

theorem parent_segment_inside_root_counterexample:
  "addFilesToZip example_world ''app.ipa''
     [\<lparr>entryPath = ''a/b'', data = ascii ''one''\<rparr>, \<lparr>entryPath = ''a/../c'', data = ascii ''two''\<rparr>] =
   (Inr (),
    [Mkdtemp,
     Mkdir ''/tmp/sinf-Ab12Cd/a'', WriteFile ''/tmp/sinf-Ab12Cd/a/b'' (ascii ''one''),
     Mkdir ''/tmp/sinf-Ab12Cd'', WriteFile ''/tmp/sinf-Ab12Cd/c'' (ascii ''two''),
     ExecFile ''zip'' [''-0'', ''app.ipa'', ''--'', ''a/b'', ''a/../c''] (Some ''/tmp/sinf-Ab12Cd''),
     Rm ''/tmp/sinf-Ab12Cd''])"
  by code_simp

text \<open>
  C1, as amended: let the staging directory have been created, and let the batch hold an
  item whose destination, resolved against the staging directory, does not start with the
  resolved staging directory followed by a slash (a path that leaves the root through
  parent-directory segments, an absolute path elsewhere, the root itself). Then the
  operation fails. The calls issued are \<^verbatim>\<open>mkdtemp\<close>, then staging calls (\<^verbatim>\<open>mkdir\<close>,
  \<^verbatim>\<open>writeFile\<close>) of items before the first such item only, in order and possibly cut short
  by a failing call, then the \<^verbatim>\<open>rm\<close> of the staging directory: the guard runs before
  any filesystem call for the item, \<^verbatim>\<open>zip\<close> is never run, and nothing is written at the
  item's resolved destination. When all the staging calls of the earlier items and the
  \<^verbatim>\<open>rm\<close> succeed, the error is \<open>UnsafePath\<close> with the first such item's path.
\<close>

theorem unsafe_item_rejected:
  assumes "mkdtemp w = Some tmpDir" and "file \<in> set files" and "\<not> inside_staging w tmpDir file"
  shows "(\<exists>pre first post tr' e.
            files = pre @ first # post \<and> (\<forall>f\<in>set pre. inside_staging w tmpDir f) \<and>
            \<not> inside_staging w tmpDir first \<and> file \<in> set (first # post) \<and>
            addFilesToZip w ipaPath files = (Inl e, Mkdtemp # tr' @ [Rm tmpDir]) \<and>
            prefix tr' (concat (map (stage_calls w tmpDir) pre)) \<and>
            (all_succeed w [Mkdtemp] (concat (map (stage_calls w tmpDir) pre) @ [Rm tmpDir]) \<longrightarrow>
               e = UnsafePath (entryPath first) \<and>
               tr' = concat (map (stage_calls w tmpDir) pre))) \<and>
         (\<forall>cmd args d. ExecFile cmd args d \<notin> set (snd (addFilesToZip w ipaPath files))) \<and>
         (\<forall>b. WriteFile (path_resolve (cwd w) [tmpDir, entryPath file]) b
                 \<notin> set (snd (addFilesToZip w ipaPath files)))"
proof -
  from assms(2,3) have "\<exists>x\<in>set files. \<not> inside_staging w tmpDir x" by blast
  then obtain pre first post where s: "files = pre @ first # post"
    and u: "\<not> inside_staging w tmpDir first"
    and p0: "\<forall>f\<in>set pre. \<not> \<not> inside_staging w tmpDir f"
    using split_list_first_prop[of files "\<lambda>x. \<not> inside_staging w tmpDir x"] by blast
  from p0 have p: "\<forall>f\<in>set pre. inside_staging w tmpDir f" by simp
  from assms(2,3) s p have mem: "file \<in> set (first # post)" by auto
  from addFilesToZip_unsafe[OF assms(1) p u, of ipaPath post] s
  obtain tr' e where
    a: "addFilesToZip w ipaPath files = (Inl e, Mkdtemp # tr' @ [Rm tmpDir])"
    and pf: "prefix tr' (concat (map (stage_calls w tmpDir) pre))"
    and ok: "all_succeed w [Mkdtemp] (concat (map (stage_calls w tmpDir) pre) @ [Rm tmpDir]) \<longrightarrow>
               e = UnsafePath (entryPath first) \<and> tr' = concat (map (stage_calls w tmpDir) pre)"
    by blast
  have sub: "set tr' \<subseteq> set (concat (map (stage_calls w tmpDir) pre))"
    using pf by (rule set_mono_prefix)
  have nz: "\<forall>cmd args d. ExecFile cmd args d \<notin> set (snd (addFilesToZip w ipaPath files))"
  proof (intro allI notI)
    fix cmd args d
    assume "ExecFile cmd args d \<in> set (snd (addFilesToZip w ipaPath files))"
    with a have "ExecFile cmd args d \<in> set tr'" by simp
    with sub have "ExecFile cmd args d \<in> set (concat (map (stage_calls w tmpDir) pre))" by blast
    from stage_calls_members[OF this] show False by simp
  qed
  have nw: "\<forall>b. WriteFile (path_resolve (cwd w) [tmpDir, entryPath file]) b
                 \<notin> set (snd (addFilesToZip w ipaPath files))"
  proof (intro allI notI)
    fix b
    assume "WriteFile (path_resolve (cwd w) [tmpDir, entryPath file]) b
              \<in> set (snd (addFilesToZip w ipaPath files))"
    with a have "WriteFile (path_resolve (cwd w) [tmpDir, entryPath file]) b \<in> set tr'" by simp
    with sub have "WriteFile (path_resolve (cwd w) [tmpDir, entryPath file]) b
                     \<in> set (concat (map (stage_calls w tmpDir) pre))" by blast
    from stage_calls_members[OF this] obtain f where f: "f \<in> set pre"
      and eq: "path_resolve (cwd w) [tmpDir, entryPath file] = path_resolve (cwd w) [tmpDir, entryPath f]"
      by auto
    from p f have "inside_staging w tmpDir f" by blast
    with eq have "inside_staging w tmpDir file" by (simp add: inside_staging_def)
    with assms(3) show False by contradiction
  qed
  from s p u mem a pf ok have
    "\<exists>pre first post tr' e.
            files = pre @ first # post \<and> (\<forall>f\<in>set pre. inside_staging w tmpDir f) \<and>
            \<not> inside_staging w tmpDir first \<and> file \<in> set (first # post) \<and>
            addFilesToZip w ipaPath files = (Inl e, Mkdtemp # tr' @ [Rm tmpDir]) \<and>
            prefix tr' (concat (map (stage_calls w tmpDir) pre)) \<and>
            (all_succeed w [Mkdtemp] (concat (map (stage_calls w tmpDir) pre) @ [Rm tmpDir]) \<longrightarrow>
               e = UnsafePath (entryPath first) \<and>
               tr' = concat (map (stage_calls w tmpDir) pre))"
    by blast
  with nz nw show ?thesis by (intro conjI)
qed

theorem unsafe_item_rejected_witness:
  "mkdtemp example_world = Some ''/tmp/sinf-Ab12Cd'' \<and>
   \<not> inside_staging example_world ''/tmp/sinf-Ab12Cd''
       \<lparr>entryPath = ''../../etc/passwd'', data = ascii ''two''\<rparr> \<and>
   addFilesToZip example_world ''app.ipa''
     [\<lparr>entryPath = ''Payload/Foo.app/SC_Info/Foo.sinf'', data = ascii ''one''\<rparr>,
      \<lparr>entryPath = ''../../etc/passwd'', data = ascii ''two''\<rparr>,
      \<lparr>entryPath = ''iTunesMetadata.plist'', data = ascii ''three''\<rparr>] =
   (Inl (UnsafePath ''../../etc/passwd''),
    [Mkdtemp,
     Mkdir ''/tmp/sinf-Ab12Cd/Payload/Foo.app/SC_Info'',
     WriteFile ''/tmp/sinf-Ab12Cd/Payload/Foo.app/SC_Info/Foo.sinf'' (ascii ''one''),
     Rm ''/tmp/sinf-Ab12Cd'']) \<and>
   (\<forall>cmd args d. ExecFile cmd args d \<notin> set (snd (addFilesToZip example_world ''app.ipa''
     [\<lparr>entryPath = ''Payload/Foo.app/SC_Info/Foo.sinf'', data = ascii ''one''\<rparr>,
      \<lparr>entryPath = ''../../etc/passwd'', data = ascii ''two''\<rparr>,
      \<lparr>entryPath = ''iTunesMetadata.plist'', data = ascii ''three''\<rparr>])))"
proof -
  let ?files = "[\<lparr>entryPath = ''Payload/Foo.app/SC_Info/Foo.sinf'', data = ascii ''one''\<rparr>,
      \<lparr>entryPath = ''../../etc/passwd'', data = ascii ''two''\<rparr>,
      \<lparr>entryPath = ''iTunesMetadata.plist'', data = ascii ''three''\<rparr>]"
  have h1: "mkdtemp example_world = Some ''/tmp/sinf-Ab12Cd''"
    by (simp add: example_world_def)
  have h2: "\<lparr>entryPath = ''../../etc/passwd'', data = ascii ''two''\<rparr> \<in> set ?files"
    by simp
  have h3: "\<not> inside_staging example_world ''/tmp/sinf-Ab12Cd''
       \<lparr>entryPath = ''../../etc/passwd'', data = ascii ''two''\<rparr>"
    by code_simp
  have h4: "addFilesToZip example_world ''app.ipa'' ?files =
   (Inl (UnsafePath ''../../etc/passwd''),
    [Mkdtemp,
     Mkdir ''/tmp/sinf-Ab12Cd/Payload/Foo.app/SC_Info'',
     WriteFile ''/tmp/sinf-Ab12Cd/Payload/Foo.app/SC_Info/Foo.sinf'' (ascii ''one''),
     Rm ''/tmp/sinf-Ab12Cd''])"
    by code_simp
  from unsafe_item_rejected[OF h1 h2 h3, of "''app.ipa''"]
  have "\<forall>cmd args d. ExecFile cmd args d \<notin> set (snd (addFilesToZip example_world ''app.ipa'' ?files))"
    by (elim conjE)
  with h1 h3 h4 show ?thesis by (intro conjI)
qed

section \<open>C2: readEntry has no path check of its own\<close>

text \<open>
  C2 says that \<^verbatim>\<open>readEntry\<close> rejects an entry path that can leave the archive's namespace
  before any extraction is invoked. The code has no such check: for the path
  \<^verbatim>\<open>../../etc/passwd\<close> it runs \<^verbatim>\<open>unzip -p -- app.ipa ../../etc/passwd\<close> and returns what
  the tool prints.
\<close>

theorem readEntry_traversal_counterexample:
  "readEntry slip_world ''app.ipa'' ''../../etc/passwd'' =
     (Inr (ascii ''root:x:0:0''),
      [ExecFile ''unzip'' [''-p'', ''--'', ''app.ipa'', ''../../etc/passwd''] None])"
  by (simp add: readEntry_def slip_world_def)

text \<open>
  C2, as amended: for every entry path, \<^verbatim>\<open>readEntry\<close> makes exactly one call,
  \<^verbatim>\<open>unzip -p -- <archive> <path>\<close>, with the path as given after the \<^verbatim>\<open>--\<close> that keeps it
  from being read as an option; it returns the tool's standard output, and fails exactly
  when the tool does.
\<close>

theorem readEntry_always_extracts:
  "readEntry w ipaPath entry =
     (case unzip_pipe w ipaPath entry of
        None \<Rightarrow> Inl ArchiveToolFailure
      | Some out \<Rightarrow> Inr out,
      [ExecFile ''unzip'' [''-p'', ''--'', ipaPath, entry] None])"
  by (simp add: readEntry_def)

section \<open>C3: binary first, then XML\<close>

text \<open>
  C3 says that a buffer beginning with the magic header \<^verbatim>\<open>bplist00\<close> is never handed to
  the XML parser, even when the binary decoder rejects it. The code tests no header: when
  \<^verbatim>\<open>bplistParser.parseBuffer\<close> throws, the \<^verbatim>\<open>catch\<close> falls through to the XML attempt.
  For the bytes of \<^verbatim>\<open>bplist00<plist><dict/></plist>\<close>, which the binary parser rejects in
  both worlds, the result is the XML parser's object in one world and \<open>null\<close> in the
  other: it is not determined by the binary decoder.
\<close>

theorem magic_header_falls_through_counterexample:
  "prefix bplist_magic (ascii ''bplist00<plist><dict/></plist>'') \<and>
   bplist_parseBuffer xml_after_magic_world (ascii ''bplist00<plist><dict/></plist>'') = None \<and>
   bplist_parseBuffer example_world (ascii ''bplist00<plist><dict/></plist>'') = None \<and>
   parsePlistBuffer xml_after_magic_world (ascii ''bplist00<plist><dict/></plist>'') = PDict [] \<and>
   parsePlistBuffer example_world (ascii ''bplist00<plist><dict/></plist>'') = PNull"
  by code_simp

text \<open>
  C3, as amended: for every buffer on which the binary decoder returns at least one
  object, the result is the first of them, whatever the XML parser would do with the
  buffer (it is not consulted). When the binary decoder throws or returns no object, also
  for a buffer that begins with the magic header, decoding falls through to the XML
  attempt: if the buffer's UTF-8 text contains \<^verbatim>\<open><?xml\<close> or \<^verbatim>\<open><plist\<close>, the result is
  what the XML parser returns when that is an object, and \<open>null\<close> when it throws or
  returns anything else; without such a tag the result is \<open>null\<close>.
\<close>

theorem parsePlistBuffer_binary_first:
  "(bplist_parseBuffer w dat = Some (v # vs) \<longrightarrow>
      (\<forall>f. parsePlistBuffer (w\<lparr>plist_parse := f\<rparr>) dat = v)) \<and>
   (bplist_parseBuffer w dat = None \<or> bplist_parseBuffer w dat = Some [] \<longrightarrow>
      parsePlistBuffer w dat =
        (if str_includes (utf8_toString w dat) ''<?xml'' \<or>
            str_includes (utf8_toString w dat) ''<plist''
         then (case plist_parse w (utf8_toString w dat) of
                 None \<Rightarrow> PNull
               | Some parsed \<Rightarrow> if truthy parsed \<and> is_object parsed then parsed else PNull)
         else PNull))"
  by (auto simp: parsePlistBuffer_def Let_def)

theorem parsePlistBuffer_binary_first_witness:
  "bplist_parseBuffer example_world (ascii ''bplist00 info'') =
     Some [PDict [(''CFBundleExecutable'', PString ''Foo'')]] \<and>
   parsePlistBuffer (example_world\<lparr>plist_parse := (\<lambda>s. Some (PDict []))\<rparr>) (ascii ''bplist00 info'') =
     PDict [(''CFBundleExecutable'', PString ''Foo'')] \<and>
   bplist_parseBuffer xml_after_magic_world (ascii ''bplist00<plist><dict/></plist>'') = None \<and>
   parsePlistBuffer xml_after_magic_world (ascii ''bplist00<plist><dict/></plist>'') = PDict []"
proof -
  have a: "bplist_parseBuffer example_world (ascii ''bplist00 info'') =
     Some [PDict [(''CFBundleExecutable'', PString ''Foo'')]]"
    by code_simp
  have b: "bplist_parseBuffer xml_after_magic_world (ascii ''bplist00<plist><dict/></plist>'') = None"
    by code_simp
  have c: "str_includes (utf8_toString xml_after_magic_world (ascii ''bplist00<plist><dict/></plist>'')) ''<plist''"
    by code_simp
  have d: "plist_parse xml_after_magic_world
             (utf8_toString xml_after_magic_world (ascii ''bplist00<plist><dict/></plist>'')) = Some (PDict [])"
    by code_simp
  have "parsePlistBuffer (example_world\<lparr>plist_parse := (\<lambda>s. Some (PDict []))\<rparr>) (ascii ''bplist00 info'') =
     PDict [(''CFBundleExecutable'', PString ''Foo'')]"
    using parsePlistBuffer_binary_first[of example_world "ascii ''bplist00 info''"] a by simp
  moreover have "parsePlistBuffer xml_after_magic_world (ascii ''bplist00<plist><dict/></plist>'') = PDict []"
    using parsePlistBuffer_binary_first[of xml_after_magic_world "ascii ''bplist00<plist><dict/></plist>''"] b c d
    by simp
  ultimately show ?thesis using a b by simp
qed

section \<open>C4: the bundle name\<close>

text \<open>
  C4 says that the name returned is the \<^verbatim>\<open><Name>\<close> of the first entry matching
  \<^verbatim>\<open>.../<Name>.app/Info.plist\<close>. The code takes the first path component ending in
  \<^verbatim>\<open>.app\<close> of that entry, which for a bundle nested in another is the outer one: for
  \<^verbatim>\<open>Payload/Foo.app/PlugIns/Bar.app/Info.plist\<close>, the first entry of the listing and
  free of \<^verbatim>\<open>/Watch/\<close>, the pattern's name is \<^verbatim>\<open>Bar\<close> and the code returns \<^verbatim>\<open>Foo\<close>.
\<close>

theorem readBundleName_nested_counterexample:
  "readBundleName [''Payload/Foo.app/PlugIns/Bar.app/Info.plist'', ''Payload/Foo.app/Info.plist'']
     = Inr ''Foo'' \<and>
   spec_pattern_name ''Payload/Foo.app/PlugIns/Bar.app/Info.plist'' = Some ''Bar'' \<and>
   \<not> str_includes ''Payload/Foo.app/PlugIns/Bar.app/Info.plist'' ''/Watch/''"
  by code_simp

text \<open>
  C4, as amended: an entry qualifies when its path contains \<^verbatim>\<open>.app/Info.plist\<close> and does
  not contain \<^verbatim>\<open>/Watch/\<close>. \<^verbatim>\<open>readBundleName\<close> fails with \<open>BundleNotFound\<close> exactly when
  no entry of the listing qualifies. Every qualifying entry has a path component ending in
  \<^verbatim>\<open>.app\<close>, so the first qualifying entry in listing order decides: the result is the
  \<^verbatim>\<open><Name>\<close> of its first (outermost) component \<^verbatim>\<open><Name>.app\<close>, for a name that does not
  itself contain \<^verbatim>\<open>.app\<close>.
\<close>

theorem readBundleName_first_info_entry:
  "(readBundleName entries = Inl BundleNotFound \<longleftrightarrow> (\<forall>e\<in>set entries. \<not> is_info_entry e)) \<and>
   (is_info_entry e \<longrightarrow> (\<exists>c\<in>set (str_split e CHR ''/''). str_endsWith c ''.app'')) \<and>
   (entries = pre @ e # post \<and> (\<forall>x\<in>set pre. \<not> is_info_entry x) \<and> is_info_entry e \<and>
    str_split e CHR ''/'' = cs @ (name @ ''.app'') # cs' \<and>
    (\<forall>c\<in>set cs. \<not> str_endsWith c ''.app'') \<and> \<not> str_includes name ''.app''
      \<longrightarrow> readBundleName entries = Inr name)"
proof (intro conjI impI iffI)
  assume "readBundleName entries = Inl BundleNotFound"
  then show "\<forall>e\<in>set entries. \<not> is_info_entry e"
    using readBundleName_found[of _ entries] by fastforce
next
  assume "\<forall>e\<in>set entries. \<not> is_info_entry e"
  then show "readBundleName entries = Inl BundleNotFound"
    by (rule readBundleName_none)
next
  assume "is_info_entry e"
  then show "\<exists>c\<in>set (str_split e CHR ''/''). str_endsWith c ''.app''"
    by (simp add: is_info_entry_def info_entry_has_app_component)
next
  assume a: "entries = pre @ e # post \<and> (\<forall>x\<in>set pre. \<not> is_info_entry x) \<and> is_info_entry e \<and>
    str_split e CHR ''/'' = cs @ (name @ ''.app'') # cs' \<and>
    (\<forall>c\<in>set cs. \<not> str_endsWith c ''.app'') \<and> \<not> str_includes name ''.app''"
  have sfx: "str_endsWith (name @ ''.app'') ''.app''"
    by (auto simp: str_endsWith_def suffix_def)
  from a have "first_app_component (str_split e CHR ''/'') =
                 Some (str_replace (name @ ''.app'') ''.app'' [])"
    using first_app_component_first[of cs "name @ ''.app''" cs'] sfx by simp
  moreover from a have "str_replace (name @ ''.app'') ''.app'' [] = name"
    by (simp add: str_includes_def str_replace_app_suffix)
  ultimately have "first_app_component (str_split e CHR ''/'') = Some name" by simp
  with a show "readBundleName entries = Inr name"
    using readBundleName_first[of pre e name post] by simp
qed

theorem readBundleName_first_info_entry_witness:
  "is_info_entry ''Payload/Foo.app/Info.plist'' \<and>
   \<not> is_info_entry ''Payload/Foo.app/Watch/W.app/Info.plist'' \<and>
   str_split ''Payload/Foo.app/Info.plist'' CHR ''/'' = [''Payload''] @ (''Foo'' @ ''.app'') # [''Info.plist''] \<and>
   \<not> str_endsWith ''Payload'' ''.app'' \<and>
   \<not> str_includes ''Foo'' ''.app'' \<and>
   readBundleName [''Payload/Foo.app/Watch/W.app/Info.plist'', ''Payload/Foo.app/Info.plist'',
                   ''Payload/Foo.app/SC_Info/Foo''] = Inr ''Foo'' \<and>
   readBundleName [''Payload/Foo.app/Watch/W.app/Info.plist'', ''META-INF/x''] = Inl BundleNotFound"
proof -
  have h1: "is_info_entry ''Payload/Foo.app/Info.plist''" by code_simp
  have h2: "\<not> is_info_entry ''Payload/Foo.app/Watch/W.app/Info.plist''" by code_simp
  have h3: "str_split ''Payload/Foo.app/Info.plist'' CHR ''/'' =
              [''Payload''] @ (''Foo'' @ ''.app'') # [''Info.plist'']" by code_simp
  have h4: "\<not> str_endsWith ''Payload'' ''.app''" by code_simp
  have h5: "\<not> str_includes ''Foo'' ''.app''" by code_simp
  have h6: "\<not> is_info_entry ''META-INF/x''" by code_simp
  have a: "readBundleName [''Payload/Foo.app/Watch/W.app/Info.plist'', ''Payload/Foo.app/Info.plist'',
                   ''Payload/Foo.app/SC_Info/Foo''] = Inr ''Foo''"
    using readBundleName_first_info_entry[of
            "[''Payload/Foo.app/Watch/W.app/Info.plist'', ''Payload/Foo.app/Info.plist'',
              ''Payload/Foo.app/SC_Info/Foo'']"
            "''Payload/Foo.app/Info.plist''"
            "[''Payload/Foo.app/Watch/W.app/Info.plist'']" "[''Payload/Foo.app/SC_Info/Foo'']"
            "[''Payload'']" "''Foo''" "[''Info.plist'']"] h1 h2 h3 h4 h5
    by simp
  have b: "readBundleName [''Payload/Foo.app/Watch/W.app/Info.plist'', ''META-INF/x''] = Inl BundleNotFound"
    using readBundleName_first_info_entry[of
            "[''Payload/Foo.app/Watch/W.app/Info.plist'', ''META-INF/x'']"] h2 h6
    by simp
  from h1 h2 h3 h4 h5 a b show ?thesis by (intro conjI)
qed

section \<open>C5: the manifest plan\<close>

text \<open>
  C5: when the listing succeeds, the bundle name is found and \<^verbatim>\<open>readManifestPlist\<close> returns
  a sequence of \<open>m\<close> path strings, then for \<open>n\<close> sinfs the planner emits exactly
  \<open>min m n\<close> items, one per index \<open>i < min m n\<close> in order, each at
  \<^verbatim>\<open>Payload/<bundle>.app/<sinfPaths[i]>\<close> with the base64-decoded bytes of sinf \<open>i\<close>.
  Indices present in only one of the two sequences yield no item and no error.
\<close>

theorem manifest_plan_min:
  assumes "fst (listEntries w ipaPath) = Inr entries"
    and "readBundleName entries = Inr bundleName"
    and "fst (readManifestPlist w ipaPath entries) = Inr (Some (map PString paths))"
  shows "\<exists>files. fst (inject_sinfs w sinfs ipaPath) = Inr files \<and>
           length files = min (length paths) (length sinfs) \<and>
           (\<forall>i < min (length paths) (length sinfs).
              files ! i = \<lparr>entryPath = ''Payload/'' @ bundleName @ ''.app/'' @ paths ! i,
                           data = from_base64 w (sinf (sinfs ! i))\<rparr>)"
proof -
  obtain tr1 where m: "readManifestPlist w ipaPath entries = (Inr (Some (map PString paths)), tr1)"
    using assms(3) by (cases "readManifestPlist w ipaPath entries") simp
  let ?files = "map (\<lambda>k. \<lparr>entryPath = ''Payload/'' @ bundleName @ ''.app/'' @ paths ! k,
                        data = from_base64 w (sinf (sinfs ! k))\<rparr>)
               [0..<min (length paths) (length sinfs)]"
  have "fst (inject_sinfs w sinfs ipaPath) = Inr ?files"
    using inject_sinfs_manifest[OF assms(1,2) m, of sinfs] by (simp add: manifest_loop_strings)
  moreover have "length ?files = min (length paths) (length sinfs)" by simp
  moreover have "\<forall>i < min (length paths) (length sinfs).
              ?files ! i = \<lparr>entryPath = ''Payload/'' @ bundleName @ ''.app/'' @ paths ! i,
                           data = from_base64 w (sinf (sinfs ! i))\<rparr>"
    by simp
  ultimately show ?thesis by (intro exI[of _ ?files] conjI)
qed

theorem manifest_plan_min_witness:
  "fst (listEntries three_path_world ''app.ipa'') =
     Inr [''Payload/Foo.app/Info.plist'', ''Payload/Foo.app/SC_Info/Manifest.plist'',
          ''Payload/Foo.app/SC_Info/Foo''] \<and>
   readBundleName [''Payload/Foo.app/Info.plist'', ''Payload/Foo.app/SC_Info/Manifest.plist'',
                   ''Payload/Foo.app/SC_Info/Foo''] = Inr ''Foo'' \<and>
   fst (readManifestPlist three_path_world ''app.ipa''
          [''Payload/Foo.app/Info.plist'', ''Payload/Foo.app/SC_Info/Manifest.plist'',
           ''Payload/Foo.app/SC_Info/Foo'']) =
     Inr (Some (map PString [''SC_Info/Foo.sinf'', ''PlugIns/Ext.appex/SC_Info/Ext.sinf'',
                             ''Frameworks/Lib.framework/SC_Info/Lib.sinf''])) \<and>
   (\<exists>files. fst (inject_sinfs three_path_world
                   [\<lparr>sinf_id = 0, sinf = ''c2luZjA=''\<rparr>, \<lparr>sinf_id = 1, sinf = ''c2luZjE=''\<rparr>]
                   ''app.ipa'') = Inr files \<and>
            length files = 2 \<and>
            files ! 0 = \<lparr>entryPath = ''Payload/Foo.app/SC_Info/Foo.sinf'', data = ascii ''sinf0''\<rparr> \<and>
            files ! 1 = \<lparr>entryPath = ''Payload/Foo.app/PlugIns/Ext.appex/SC_Info/Ext.sinf'',
                          data = ascii ''sinf1''\<rparr>)"
proof -
  let ?E = "[''Payload/Foo.app/Info.plist'', ''Payload/Foo.app/SC_Info/Manifest.plist'',
             ''Payload/Foo.app/SC_Info/Foo'']"
  let ?P = "[''SC_Info/Foo.sinf'', ''PlugIns/Ext.appex/SC_Info/Ext.sinf'',
             ''Frameworks/Lib.framework/SC_Info/Lib.sinf'']"
  let ?S = "[\<lparr>sinf_id = 0, sinf = ''c2luZjA=''\<rparr>, \<lparr>sinf_id = 1, sinf = ''c2luZjE=''\<rparr>]"
  have h1: "fst (listEntries three_path_world ''app.ipa'') = Inr ?E"
    by code_simp
  have h2: "readBundleName ?E = Inr ''Foo''"
    by code_simp
  have h3: "fst (readManifestPlist three_path_world ''app.ipa'' ?E) = Inr (Some (map PString ?P))"
    by code_simp
  have b0: "from_base64 three_path_world ''c2luZjA='' = ascii ''sinf0''"
    by (simp add: three_path_world_def example_world_def)
  have b1: "from_base64 three_path_world ''c2luZjE='' = ascii ''sinf1''"
    by (simp add: three_path_world_def example_world_def)
  from manifest_plan_min[OF h1 h2 h3, of ?S]
  obtain files where f: "fst (inject_sinfs three_path_world ?S ''app.ipa'') = Inr files"
    and l: "length files = min (length ?P) (length ?S)"
    and n: "\<forall>i < min (length ?P) (length ?S).
              files ! i = \<lparr>entryPath = ''Payload/'' @ ''Foo'' @ ''.app/'' @ ?P ! i,
                           data = from_base64 three_path_world (sinf (?S ! i))\<rparr>"
    by (elim exE conjE)
  from n have "files ! 0 = \<lparr>entryPath = ''Payload/Foo.app/SC_Info/Foo.sinf'', data = ascii ''sinf0''\<rparr>"
    using b0 by simp
  moreover from n have "files ! 1 = \<lparr>entryPath = ''Payload/Foo.app/PlugIns/Ext.appex/SC_Info/Ext.sinf'',
                          data = ascii ''sinf1''\<rparr>"
    using b1 by simp
  moreover from l have "length files = 2" by simp
  ultimately show ?thesis using h1 h2 h3 f by (intro conjI exI[of _ files])
qed

section \<open>C6: the manifest has priority, the fallback plans one item\<close>

text \<open>
  C6: with the listing read and the bundle name found, whenever \<^verbatim>\<open>readManifestPlist\<close>
  returns a path list, the outcome is that of the loop over this list alone, and the only
  entry read is the manifest entry: \<^verbatim>\<open>readInfoPlist\<close> is not run, so no fallback item is
  planned; for a list of path strings the plan is the items of C5. When
  \<^verbatim>\<open>readManifestPlist\<close> returns none, \<^verbatim>\<open>readInfoPlist\<close> returns an executable name and
  there is at least one sinf, exactly one item is planned, at
  \<^verbatim>\<open>Payload/<bundle>.app/SC_Info/<executable>.sinf\<close>, with the bytes of the first sinf;
  the other sinfs are dropped without error.
\<close>

theorem manifest_priority_and_fallback:
  assumes "fst (listEntries w ipaPath) = Inr entries"
    and "readBundleName entries = Inr bundleName"
  shows "(readManifestPlist w ipaPath entries = (Inr (Some sinfPaths), tr1) \<longrightarrow>
           inject_sinfs w sinfs ipaPath =
             (manifest_loop w bundleName sinfPaths sinfs 0 [], list_call ipaPath # tr1) \<and>
           (\<exists>e. find is_manifest_entry entries = Some e \<and> tr1 = [read_call ipaPath e])) \<and>
         (readManifestPlist w ipaPath entries = (Inr (Some (map PString paths)), tr1) \<longrightarrow>
           fst (inject_sinfs w sinfs ipaPath) =
             Inr (map (\<lambda>k. \<lparr>entryPath = ''Payload/'' @ bundleName @ ''.app/'' @ paths ! k,
                              data = from_base64 w (sinf (sinfs ! k))\<rparr>)
                      [0..<min (length paths) (length sinfs)])) \<and>
         (readManifestPlist w ipaPath entries = (Inr None, tr1) \<and>
          readInfoPlist w ipaPath entries = (Inr (Some bundleExecutable), tr2) \<and>
          sinfs = s # rest \<longrightarrow>
           inject_sinfs w sinfs ipaPath =
             (Inr [\<lparr>entryPath = ''Payload/'' @ bundleName @ ''.app/SC_Info/''
                                 @ bundleExecutable @ ''.sinf'',
                    data = from_base64 w (sinf s)\<rparr>],
              list_call ipaPath # tr1 @ tr2))"
proof (intro conjI impI)
  assume m: "readManifestPlist w ipaPath entries = (Inr (Some sinfPaths), tr1)"
  show "inject_sinfs w sinfs ipaPath =
             (manifest_loop w bundleName sinfPaths sinfs 0 [], list_call ipaPath # tr1)"
    by (rule inject_sinfs_manifest[OF assms m])
  from readManifestPlist_Some[OF m]
  show "\<exists>e. find is_manifest_entry entries = Some e \<and> tr1 = [read_call ipaPath e]"
    by blast
next
  assume m: "readManifestPlist w ipaPath entries = (Inr (Some (map PString paths)), tr1)"
  show "fst (inject_sinfs w sinfs ipaPath) =
             Inr (map (\<lambda>k. \<lparr>entryPath = ''Payload/'' @ bundleName @ ''.app/'' @ paths ! k,
                              data = from_base64 w (sinf (sinfs ! k))\<rparr>)
                      [0..<min (length paths) (length sinfs)])"
    using inject_sinfs_manifest[OF assms m, of sinfs] by (simp add: manifest_loop_strings)
next
  assume a: "readManifestPlist w ipaPath entries = (Inr None, tr1) \<and>
          readInfoPlist w ipaPath entries = (Inr (Some bundleExecutable), tr2) \<and>
          sinfs = s # rest"
  then show "inject_sinfs w sinfs ipaPath =
             (Inr [\<lparr>entryPath = ''Payload/'' @ bundleName @ ''.app/SC_Info/''
                                 @ bundleExecutable @ ''.sinf'',
                    data = from_base64 w (sinf s)\<rparr>],
              list_call ipaPath # tr1 @ tr2)"
    using inject_sinfs_fallback[OF assms, of tr1 bundleExecutable tr2 sinfs] by simp
qed

theorem manifest_priority_and_fallback_witness:
  "snd (inject_sinfs example_world
          [\<lparr>sinf_id = 0, sinf = ''c2luZjA=''\<rparr>, \<lparr>sinf_id = 1, sinf = ''c2luZjE=''\<rparr>] ''app.ipa'') =
     [list_call ''app.ipa'', read_call ''app.ipa'' ''Payload/Foo.app/SC_Info/Manifest.plist''] \<and>
   fst (inject_sinfs example_world
          [\<lparr>sinf_id = 0, sinf = ''c2luZjA=''\<rparr>, \<lparr>sinf_id = 1, sinf = ''c2luZjE=''\<rparr>] ''app.ipa'') =
     Inr [\<lparr>entryPath = ''Payload/Foo.app/SC_Info/Foo.sinf'', data = ascii ''sinf0''\<rparr>] \<and>
   inject_sinfs fallback_world [\<lparr>sinf_id = 0, sinf = ''c2luZjA=''\<rparr>, \<lparr>sinf_id = 1, sinf = ''c2luZjE=''\<rparr>]
       ''app.ipa'' =
     (Inr [\<lparr>entryPath = ''Payload/Foo.app/SC_Info/Foo.sinf'', data = ascii ''sinf0''\<rparr>],
      [list_call ''app.ipa'', read_call ''app.ipa'' ''Payload/Foo.app/Info.plist''])"
proof -
  let ?E = "[''Payload/Foo.app/Info.plist'', ''Payload/Foo.app/SC_Info/Manifest.plist'',
             ''Payload/Foo.app/SC_Info/Foo'']"
  let ?F = "[''Payload/Foo.app/Info.plist'', ''Payload/Foo.app/SC_Info/Foo'']"
  let ?S = "[\<lparr>sinf_id = 0, sinf = ''c2luZjA=''\<rparr>, \<lparr>sinf_id = 1, sinf = ''c2luZjE=''\<rparr>]"
  let ?m = "[read_call ''app.ipa'' ''Payload/Foo.app/SC_Info/Manifest.plist'']"
  have e1: "fst (listEntries example_world ''app.ipa'') = Inr ?E"
    by code_simp
  have e2: "readBundleName ?E = Inr ''Foo''"
    by code_simp
  have e3: "readManifestPlist example_world ''app.ipa'' ?E =
              (Inr (Some (map PString [''SC_Info/Foo.sinf''])), ?m)"
    by code_simp
  have e4: "readManifestPlist example_world ''app.ipa'' ?E =
              (Inr (Some [PString ''SC_Info/Foo.sinf'']), ?m)"
    using e3 by simp
  have b0: "from_base64 example_world ''c2luZjA='' = ascii ''sinf0''"
    by (simp add: example_world_def)
  have f1: "fst (listEntries fallback_world ''app.ipa'') = Inr ?F"
    by code_simp
  have f2: "readBundleName ?F = Inr ''Foo''"
    by code_simp
  have f3: "readManifestPlist fallback_world ''app.ipa'' ?F = (Inr None, [])"
    by code_simp
  have f4: "readInfoPlist fallback_world ''app.ipa'' ?F =
              (Inr (Some ''Foo''), [read_call ''app.ipa'' ''Payload/Foo.app/Info.plist''])"
    by code_simp
  have c0: "from_base64 fallback_world ''c2luZjA='' = ascii ''sinf0''"
    by (simp add: fallback_world_def example_world_def)
  note t1 = manifest_priority_and_fallback[OF e1 e2,
              of "[PString ''SC_Info/Foo.sinf'']" ?m ?S "[''SC_Info/Foo.sinf'']"]
  have a: "snd (inject_sinfs example_world ?S ''app.ipa'') =
             [list_call ''app.ipa'', read_call ''app.ipa'' ''Payload/Foo.app/SC_Info/Manifest.plist'']"
    using t1[THEN conjunct1, THEN mp, OF e4] by simp
  have b: "fst (inject_sinfs example_world ?S ''app.ipa'') =
             Inr [\<lparr>entryPath = ''Payload/Foo.app/SC_Info/Foo.sinf'', data = ascii ''sinf0''\<rparr>]"
    using t1[THEN conjunct2, THEN conjunct1, THEN mp, OF e3] b0 by simp
  have c: "inject_sinfs fallback_world ?S ''app.ipa'' =
     (Inr [\<lparr>entryPath = ''Payload/Foo.app/SC_Info/Foo.sinf'', data = ascii ''sinf0''\<rparr>],
      [list_call ''app.ipa'', read_call ''app.ipa'' ''Payload/Foo.app/Info.plist''])"
    using manifest_priority_and_fallback[OF f1 f2,
            of _ "[]" ?S _ "''Foo''" "[read_call ''app.ipa'' ''Payload/Foo.app/Info.plist'']"
               "\<lparr>sinf_id = 0, sinf = ''c2luZjA=''\<rparr>" "[\<lparr>sinf_id = 1, sinf = ''c2luZjE=''\<rparr>]"]
          f3 f4 c0
    by simp
  from a b c show ?thesis by (intro conjI)
qed

section \<open>C7: which manifest entry is read\<close>

text \<open>
  C7 says that the manifest entry read lies under the bundle that \<^verbatim>\<open>readBundleName\<close>
  found. The code does not look at the bundle: in a listing whose \<^verbatim>\<open>Info.plist\<close> is under
  \<^verbatim>\<open>Foo.app\<close> and whose only manifest is under \<^verbatim>\<open>Bar.app\<close>, the bundle name is
  \<^verbatim>\<open>Foo\<close> and the manifest of \<^verbatim>\<open>Bar.app\<close> is read and returned.
\<close>

theorem readManifestPlist_other_bundle_counterexample:
  "readBundleName [''Payload/Foo.app/Info.plist'', ''Payload/Bar.app/SC_Info/Manifest.plist'']
     = Inr ''Foo'' \<and>
   readManifestPlist two_bundle_world ''app.ipa''
       [''Payload/Foo.app/Info.plist'', ''Payload/Bar.app/SC_Info/Manifest.plist''] =
     (Inr (Some [PString ''SC_Info/Foo.sinf'']),
      [ExecFile ''unzip'' [''-p'', ''--'', ''app.ipa'', ''Payload/Bar.app/SC_Info/Manifest.plist''] None]) \<and>
   \<not> spec_under_bundle ''Foo'' ''Payload/Bar.app/SC_Info/Manifest.plist''"
  by code_simp

text \<open>
  C7, as amended: when \<^verbatim>\<open>readManifestPlist\<close> returns a path sequence, the one entry it has
  read is the first entry of the listing, in listing order, that ends in
  \<^verbatim>\<open>.app/SC_Info/Manifest.plist\<close> (whichever bundle directory it lies under), and the
  sequence is the array stored under \<^verbatim>\<open>SinfPaths\<close> in that entry's decoded tree. When that
  entry's decoded tree has no \<^verbatim>\<open>SinfPaths\<close>, or a value there that is not an array, the
  result is none, not an error; so it is when no entry has that ending, and then nothing is
  read.
\<close>

theorem readManifestPlist_first_manifest_entry:
  "(readManifestPlist w ipaPath entries = (Inr (Some sinfPaths), tr) \<longrightarrow>
      (\<exists>e dat. find is_manifest_entry entries = Some e \<and> tr = [read_call ipaPath e] \<and>
               unzip_pipe w ipaPath e = Some dat \<and>
               js_get (parsePlistBuffer w dat) ''SinfPaths'' = Some (PArray sinfPaths))) \<and>
   (find is_manifest_entry entries = Some e \<and> unzip_pipe w ipaPath e = Some dat \<and>
    (\<forall>xs. js_get (parsePlistBuffer w dat) ''SinfPaths'' \<noteq> Some (PArray xs)) \<longrightarrow>
      readManifestPlist w ipaPath entries = (Inr None, [read_call ipaPath e])) \<and>
   (find is_manifest_entry entries = None \<longrightarrow>
      readManifestPlist w ipaPath entries = (Inr None, []))"
proof (intro conjI impI)
  assume "readManifestPlist w ipaPath entries = (Inr (Some sinfPaths), tr)"
  then show "\<exists>e dat. find is_manifest_entry entries = Some e \<and> tr = [read_call ipaPath e] \<and>
               unzip_pipe w ipaPath e = Some dat \<and>
               js_get (parsePlistBuffer w dat) ''SinfPaths'' = Some (PArray sinfPaths)"
    by (rule readManifestPlist_Some)
next
  assume a: "find is_manifest_entry entries = Some e \<and> unzip_pipe w ipaPath e = Some dat \<and>
    (\<forall>xs. js_get (parsePlistBuffer w dat) ''SinfPaths'' \<noteq> Some (PArray xs))"
  then have "(case js_get (parsePlistBuffer w dat) ''SinfPaths'' of
                      Some (PArray sinfPaths) \<Rightarrow> Some sinfPaths
                    | _ \<Rightarrow> None) = None"
    by (auto split: option.splits PropertyValue.splits)
  with a show "readManifestPlist w ipaPath entries = (Inr None, [read_call ipaPath e])"
    by (simp add: readManifestPlist_find)
next
  assume "find is_manifest_entry entries = None"
  then show "readManifestPlist w ipaPath entries = (Inr None, [])"
    by (simp add: readManifestPlist_find)
qed

theorem readManifestPlist_first_manifest_entry_witness:
  "readManifestPlist example_world ''app.ipa''
       [''Payload/Foo.app/Info.plist'', ''Payload/Foo.app/SC_Info/Manifest.plist'',
        ''Payload/Foo.app/SC_Info/Foo''] =
     (Inr (Some [PString ''SC_Info/Foo.sinf'']),
      [read_call ''app.ipa'' ''Payload/Foo.app/SC_Info/Manifest.plist'']) \<and>
   (\<exists>e dat. find is_manifest_entry
               [''Payload/Foo.app/Info.plist'', ''Payload/Foo.app/SC_Info/Manifest.plist'',
                ''Payload/Foo.app/SC_Info/Foo''] = Some e \<and>
            [read_call ''app.ipa'' ''Payload/Foo.app/SC_Info/Manifest.plist''] = [read_call ''app.ipa'' e] \<and>
            unzip_pipe example_world ''app.ipa'' e = Some dat \<and>
            js_get (parsePlistBuffer example_world dat) ''SinfPaths'' =
              Some (PArray [PString ''SC_Info/Foo.sinf''])) \<and>
   find is_manifest_entry
     [''Payload/Foo.app/Info.plist'', ''Payload/Foo.app/SC_Info/Manifest.plist'',
      ''Payload/Foo.app/SC_Info/Foo''] = Some ''Payload/Foo.app/SC_Info/Manifest.plist'' \<and>
   unzip_pipe no_paths_world ''app.ipa'' ''Payload/Foo.app/SC_Info/Manifest.plist'' =
     Some (ascii ''bplist00 info'') \<and>
   readManifestPlist no_paths_world ''app.ipa''
       [''Payload/Foo.app/Info.plist'', ''Payload/Foo.app/SC_Info/Manifest.plist'',
        ''Payload/Foo.app/SC_Info/Foo''] =
     (Inr None, [read_call ''app.ipa'' ''Payload/Foo.app/SC_Info/Manifest.plist''])"
proof -
  let ?E = "[''Payload/Foo.app/Info.plist'', ''Payload/Foo.app/SC_Info/Manifest.plist'',
             ''Payload/Foo.app/SC_Info/Foo'']"
  let ?m = "''Payload/Foo.app/SC_Info/Manifest.plist''"
  have e3: "readManifestPlist example_world ''app.ipa'' ?E =
              (Inr (Some [PString ''SC_Info/Foo.sinf'']), [read_call ''app.ipa'' ?m])"
    by code_simp
  have g1: "find is_manifest_entry ?E = Some ?m"
    by code_simp
  have g2: "unzip_pipe no_paths_world ''app.ipa'' ?m = Some (ascii ''bplist00 info'')"
    by (simp add: no_paths_world_def)
  have g3: "js_get (parsePlistBuffer no_paths_world (ascii ''bplist00 info'')) ''SinfPaths'' = None"
    by code_simp
  have a: "\<exists>e dat. find is_manifest_entry ?E = Some e \<and>
            [read_call ''app.ipa'' ?m] = [read_call ''app.ipa'' e] \<and>
            unzip_pipe example_world ''app.ipa'' e = Some dat \<and>
            js_get (parsePlistBuffer example_world dat) ''SinfPaths'' =
              Some (PArray [PString ''SC_Info/Foo.sinf''])"
    using readManifestPlist_first_manifest_entry[of example_world "''app.ipa''" ?E
            "[PString ''SC_Info/Foo.sinf'']" "[read_call ''app.ipa'' ?m]"] e3
    by blast
  have b: "readManifestPlist no_paths_world ''app.ipa'' ?E = (Inr None, [read_call ''app.ipa'' ?m])"
    using readManifestPlist_first_manifest_entry[of no_paths_world "''app.ipa''" ?E _ _
            ?m "ascii ''bplist00 info''"] g1 g2 g3
    by simp
  from e3 a g1 g2 b show ?thesis by (intro conjI)
qed

section \<open>C8: the metadata item\<close>

text \<open>
  C8 says that for a buffer that is not valid XML-plist text the item's bytes are the
  supplied bytes. The code keeps the supplied bytes only when \<^verbatim>\<open>plist.parse\<close> or
  \<^verbatim>\<open>bplistCreator\<close> throws. A parser that accepts the text
  \<^verbatim>\<open>this is not a plist <plist\<close>, which has no \<^verbatim>\<open>plist\<close> element, and returns the empty
  array for it, makes the item's bytes the binary plist of the empty array, not the supplied
  bytes.
\<close>

theorem metadata_converted_counterexample:
  "utf8_toString lenient_parser_world
     (from_base64 lenient_parser_world ''dGhpcyBpcyBub3QgYSBwbGlzdCA8cGxpc3Q='') =
     ''this is not a plist <plist'' \<and>
   \<not> spec_has_plist_element ''this is not a plist <plist'' \<and>
   inject_metadata lenient_parser_world (Some ''dGhpcyBpcyBub3QgYSBwbGlzdCA8cGxpc3Q='') =
     [\<lparr>entryPath = ''iTunesMetadata.plist'', data = empty_array_bplist\<rparr>] \<and>
   from_base64 lenient_parser_world ''dGhpcyBpcyBub3QgYSBwbGlzdCA8cGxpc3Q='' \<noteq> empty_array_bplist"
  by code_simp

text \<open>
  C8, as amended: for every metadata argument that is present and not the empty string,
  exactly one more item is planned, at the archive-root path \<^verbatim>\<open>iTunesMetadata.plist\<close>,
  whether or not the conversion to a binary plist succeeds. When \<^verbatim>\<open>plist.parse\<close> throws
  on the decoded text, and also when \<^verbatim>\<open>bplistCreator\<close> throws, the item's bytes are the
  supplied (base64-decoded) bytes, unchanged; when both return, the bytes are the encoder's
  output, whatever the text was. The conversion never makes the operation fail: the plan
  with metadata fails exactly when the plan of the sinf files fails, with the same error,
  and otherwise is the sinf files followed by the one metadata item.
\<close>

theorem metadata_item_always_planned:
  "s \<noteq> [] \<Longrightarrow>
   \<exists>b. inject_metadata w (Some s) = [\<lparr>entryPath = ''iTunesMetadata.plist'', data = b\<rparr>] \<and>
       (plist_parse w (utf8_toString w (from_base64 w s)) = None \<longrightarrow> b = from_base64 w s) \<and>
       (\<forall>p. plist_parse w (utf8_toString w (from_base64 w s)) = Some p \<and> bplistCreator w p = None
            \<longrightarrow> b = from_base64 w s) \<and>
       (\<forall>p c. plist_parse w (utf8_toString w (from_base64 w s)) = Some p \<and> bplistCreator w p = Some c
            \<longrightarrow> b = c) \<and>
       filesToInject w sinfs ipaPath (Some s) =
         (case inject_sinfs w sinfs ipaPath of
            (Inl e, tr) \<Rightarrow> (Inl e, tr)
          | (Inr files, tr) \<Rightarrow>
              (Inr (files @ [\<lparr>entryPath = ''iTunesMetadata.plist'', data = b\<rparr>]), tr))"
proof -
  assume ne: "s \<noteq> []"
  define b where "b = (case plist_parse w (utf8_toString w (from_base64 w s)) of
                 None \<Rightarrow> from_base64 w s
               | Some parsed \<Rightarrow>
                   (case bplistCreator w parsed of
                      None \<Rightarrow> from_base64 w s
                    | Some b \<Rightarrow> b))"
  have m: "inject_metadata w (Some s) = [\<lparr>entryPath = ''iTunesMetadata.plist'', data = b\<rparr>]"
    using inject_metadata_present[OF ne, of w] by (simp add: b_def)
  have c1: "plist_parse w (utf8_toString w (from_base64 w s)) = None \<longrightarrow> b = from_base64 w s"
    by (simp add: b_def)
  have c2: "\<forall>p. plist_parse w (utf8_toString w (from_base64 w s)) = Some p \<and> bplistCreator w p = None
            \<longrightarrow> b = from_base64 w s"
    by (simp add: b_def)
  have c3: "\<forall>p c. plist_parse w (utf8_toString w (from_base64 w s)) = Some p \<and> bplistCreator w p = Some c
            \<longrightarrow> b = c"
    by (simp add: b_def)
  have c4: "filesToInject w sinfs ipaPath (Some s) =
         (case inject_sinfs w sinfs ipaPath of
            (Inl e, tr) \<Rightarrow> (Inl e, tr)
          | (Inr files, tr) \<Rightarrow>
              (Inr (files @ [\<lparr>entryPath = ''iTunesMetadata.plist'', data = b\<rparr>]), tr))"
    by (cases "inject_sinfs w sinfs ipaPath") (simp add: filesToInject_def m split: sum.split)
  show ?thesis
    by (rule exI[of _ b], intro conjI) (rule m c1 c2 c3 c4)+
qed

theorem metadata_item_always_planned_witness:
  "''bm90IGEgcGxpc3Q='' \<noteq> [] \<and>
   plist_parse example_world
     (utf8_toString example_world (from_base64 example_world ''bm90IGEgcGxpc3Q='')) = None \<and>
   inject_metadata example_world (Some ''bm90IGEgcGxpc3Q='') =
     [\<lparr>entryPath = ''iTunesMetadata.plist'', data = ascii ''not a plist''\<rparr>]"
proof -
  have ne: "''bm90IGEgcGxpc3Q='' \<noteq> []" by simp
  have p: "plist_parse example_world
     (utf8_toString example_world (from_base64 example_world ''bm90IGEgcGxpc3Q='')) = None"
    by code_simp
  have d: "from_base64 example_world ''bm90IGEgcGxpc3Q='' = ascii ''not a plist''"
    by (simp add: example_world_def)
  from metadata_item_always_planned[OF ne, of example_world "[]" "''app.ipa''"]
  obtain b where
    "inject_metadata example_world (Some ''bm90IGEgcGxpc3Q='') =
       [\<lparr>entryPath = ''iTunesMetadata.plist'', data = b\<rparr>]"
    and "plist_parse example_world
           (utf8_toString example_world (from_base64 example_world ''bm90IGEgcGxpc3Q='')) = None
         \<longrightarrow> b = from_base64 example_world ''bm90IGEgcGxpc3Q=''"
    by (elim exE conjE)
  with p d ne show ?thesis by simp
qed

section \<open>C9: an empty plan writes nothing\<close>

text \<open>
  C9: whenever the combined plan (\<^verbatim>\<open>filesToInject\<close>) is empty, \<^verbatim>\<open>inject\<close> succeeds
  without calling \<^verbatim>\<open>addFilesToZip\<close>: the calls it has made are those of the planning, each
  an \<^verbatim>\<open>unzip\<close> run (listing or reading), so no staging directory is made, nothing is
  written and \<^verbatim>\<open>zip\<close> is not run; the archive is left as it was. With no sinfs and no
  metadata payload (the argument absent or the empty string), a plan that is made at all,
  from a manifest or from the fallback, is empty.
\<close>

theorem empty_plan_no_write:
  "(filesToInject w sinfs ipaPath iTunesMetadata = (Inr [], tr) \<longrightarrow>
      inject w sinfs ipaPath iTunesMetadata = (Inr (), tr) \<and>
      (\<forall>c\<in>set tr. \<exists>args. c = ExecFile ''unzip'' args None)) \<and>
   (sinfs = [] \<and> (iTunesMetadata = None \<or> iTunesMetadata = Some []) \<and>
    filesToInject w sinfs ipaPath iTunesMetadata = (Inr files, tr) \<longrightarrow> files = [])"
proof (intro conjI impI)
  assume a: "filesToInject w sinfs ipaPath iTunesMetadata = (Inr [], tr)"
  show "inject w sinfs ipaPath iTunesMetadata = (Inr (), tr)"
    by (simp add: inject_def a)
  from a have "tr = snd (inject_sinfs w sinfs ipaPath)"
    using filesToInject_calls[of w sinfs ipaPath iTunesMetadata] by simp
  then show "\<forall>c\<in>set tr. \<exists>args. c = ExecFile ''unzip'' args None"
    using inject_sinfs_calls[of _ w sinfs ipaPath] by blast
next
  assume a: "sinfs = [] \<and> (iTunesMetadata = None \<or> iTunesMetadata = Some []) \<and>
             filesToInject w sinfs ipaPath iTunesMetadata = (Inr files, tr)"
  then have "fst (inject_sinfs w [] ipaPath) = Inr files"
    by (cases "inject_sinfs w [] ipaPath")
       (auto simp: filesToInject_def inject_metadata_absent split: sum.splits)
  then show "files = []"
    by (rule inject_sinfs_no_sinfs)
qed

theorem empty_plan_no_write_witness:
  "filesToInject example_world [] ''app.ipa'' None =
     (Inr [], [ExecFile ''unzip'' [''-l'', ''--'', ''app.ipa''] None,
               ExecFile ''unzip'' [''-p'', ''--'', ''app.ipa'',
                                   ''Payload/Foo.app/SC_Info/Manifest.plist''] None]) \<and>
   inject example_world [] ''app.ipa'' None =
     (Inr (), [ExecFile ''unzip'' [''-l'', ''--'', ''app.ipa''] None,
               ExecFile ''unzip'' [''-p'', ''--'', ''app.ipa'',
                                   ''Payload/Foo.app/SC_Info/Manifest.plist''] None])"
proof -
  have h: "filesToInject example_world [] ''app.ipa'' None =
     (Inr [], [ExecFile ''unzip'' [''-l'', ''--'', ''app.ipa''] None,
               ExecFile ''unzip'' [''-p'', ''--'', ''app.ipa'',
                                   ''Payload/Foo.app/SC_Info/Manifest.plist''] None])"
    by code_simp
  show ?thesis
    using h empty_plan_no_write[of example_world "[]" "''app.ipa''" None _ "[]"] by simp
qed

section \<open>C10: the empty metadata string, and the position of the metadata item\<close>

text \<open>
  C10: for the metadata argument given as the empty string, no metadata item is planned
  and nothing is decoded or converted: the metadata part of the plan is empty whatever the
  base64 decoder, the text decoder and the two plist libraries would return or throw; the
  plan is exactly the outcome of planning the sinf files, none of whose items is at
  \<^verbatim>\<open>iTunesMetadata.plist\<close>; and the plan and the whole run of \<^verbatim>\<open>inject\<close> are those of
  an absent argument. Whenever a metadata item is planned (a non-empty argument and a plan
  that is made), it is the last item of the batch, after all sinf items: the batch without
  its last item is the plan of the sinf files, and this batch, in this order, is what
  \<^verbatim>\<open>addFilesToZip\<close> is called with.
\<close>

theorem empty_metadata_and_order:
  "inject_metadata w (Some []) = [] \<and>
   inject_metadata (w\<lparr>from_base64 := d, utf8_toString := u, plist_parse := f, bplistCreator := g\<rparr>)
     (Some []) = [] \<and>
   filesToInject w sinfs ipaPath (Some []) = inject_sinfs w sinfs ipaPath \<and>
   (filesToInject w sinfs ipaPath (Some []) = (Inr files0, tr0) \<longrightarrow>
      (\<forall>x\<in>set files0. entryPath x \<noteq> ''iTunesMetadata.plist'')) \<and>
   filesToInject w sinfs ipaPath (Some []) = filesToInject w sinfs ipaPath None \<and>
   inject w sinfs ipaPath (Some []) = inject w sinfs ipaPath None \<and>
   (s \<noteq> [] \<and> filesToInject w sinfs ipaPath (Some s) = (Inr files, tr) \<longrightarrow>
      files \<noteq> [] \<and>
      entryPath (last files) = ''iTunesMetadata.plist'' \<and>
      inject_sinfs w sinfs ipaPath = (Inr (butlast files), tr) \<and>
      inject w sinfs ipaPath (Some s) =
        (fst (addFilesToZip w ipaPath files), tr @ snd (addFilesToZip w ipaPath files)))"
proof (intro conjI impI)
  show "inject_metadata w (Some []) = []"
    by (rule inject_metadata_absent(2))
  show "inject_metadata (w\<lparr>from_base64 := d, utf8_toString := u, plist_parse := f,
                           bplistCreator := g\<rparr>) (Some []) = []"
    by (rule inject_metadata_absent(2))
  show e: "filesToInject w sinfs ipaPath (Some []) = inject_sinfs w sinfs ipaPath"
    by (rule filesToInject_empty_string)
  show a: "filesToInject w sinfs ipaPath (Some []) = filesToInject w sinfs ipaPath None"
    by (cases "inject_sinfs w sinfs ipaPath")
       (simp add: filesToInject_def inject_metadata_absent split: sum.split)
  show "inject w sinfs ipaPath (Some []) = inject w sinfs ipaPath None"
    by (simp only: inject_def a)
next
  assume "filesToInject w sinfs ipaPath (Some []) = (Inr files0, tr0)"
  then have "inject_sinfs w sinfs ipaPath = (Inr files0, tr0)"
    by (simp only: filesToInject_empty_string)
  from inject_sinfs_under_Payload[OF this]
  show "\<forall>x\<in>set files0. entryPath x \<noteq> ''iTunesMetadata.plist''"
    by (auto dest: under_Payload_not_metadata)
next
  assume h: "s \<noteq> [] \<and> filesToInject w sinfs ipaPath (Some s) = (Inr files, tr)"
  then obtain b where m: "inject_metadata w (Some s) = [\<lparr>entryPath = ''iTunesMetadata.plist'', data = b\<rparr>]"
    using inject_metadata_present[of s w] by blast
  from h obtain drm where d: "inject_sinfs w sinfs ipaPath = (Inr drm, tr)"
    and f: "files = drm @ inject_metadata w (Some s)"
    using filesToInject_split[of w sinfs ipaPath "Some s" files tr] by blast
  show "files \<noteq> []" using f m by simp
  show "entryPath (last files) = ''iTunesMetadata.plist''" using f m by simp
  show "inject_sinfs w sinfs ipaPath = (Inr (butlast files), tr)" using d f m by simp
  have "length files > 0" using f m by simp
  then show "inject w sinfs ipaPath (Some s) =
        (fst (addFilesToZip w ipaPath files), tr @ snd (addFilesToZip w ipaPath files))"
    using h by (cases "addFilesToZip w ipaPath files") (simp add: inject_def)
qed

theorem empty_metadata_and_order_witness:
  "inject_metadata example_world (Some []) = [] \<and>
   filesToInject example_world [\<lparr>sinf_id = 0, sinf = ''c2luZjA=''\<rparr>] ''app.ipa'' (Some []) =
     (Inr [\<lparr>entryPath = ''Payload/Foo.app/SC_Info/Foo.sinf'', data = ascii ''sinf0''\<rparr>],
      [list_call ''app.ipa'',
       read_call ''app.ipa'' ''Payload/Foo.app/SC_Info/Manifest.plist'']) \<and>
   entryPath \<lparr>entryPath = ''Payload/Foo.app/SC_Info/Foo.sinf'', data = ascii ''sinf0''\<rparr>
     \<noteq> ''iTunesMetadata.plist'' \<and>
   ''bm90IGEgcGxpc3Q='' \<noteq> [] \<and>
   filesToInject example_world [\<lparr>sinf_id = 0, sinf = ''c2luZjA=''\<rparr>] ''app.ipa''
       (Some ''bm90IGEgcGxpc3Q='') =
     (Inr [\<lparr>entryPath = ''Payload/Foo.app/SC_Info/Foo.sinf'', data = ascii ''sinf0''\<rparr>,
           \<lparr>entryPath = ''iTunesMetadata.plist'', data = ascii ''not a plist''\<rparr>],
      [list_call ''app.ipa'',
       read_call ''app.ipa'' ''Payload/Foo.app/SC_Info/Manifest.plist'']) \<and>
   inject_sinfs example_world [\<lparr>sinf_id = 0, sinf = ''c2luZjA=''\<rparr>] ''app.ipa'' =
     (Inr [\<lparr>entryPath = ''Payload/Foo.app/SC_Info/Foo.sinf'', data = ascii ''sinf0''\<rparr>],
      [list_call ''app.ipa'',
       read_call ''app.ipa'' ''Payload/Foo.app/SC_Info/Manifest.plist'']) \<and>
   entryPath (last [\<lparr>entryPath = ''Payload/Foo.app/SC_Info/Foo.sinf'', data = ascii ''sinf0''\<rparr>,
                    \<lparr>entryPath = ''iTunesMetadata.plist'', data = ascii ''not a plist''\<rparr>]) =
     ''iTunesMetadata.plist''"
proof -
  let ?S = "[\<lparr>sinf_id = 0, sinf = ''c2luZjA=''\<rparr>]"
  let ?drm = "\<lparr>entryPath = ''Payload/Foo.app/SC_Info/Foo.sinf'', data = ascii ''sinf0''\<rparr>"
  let ?meta = "\<lparr>entryPath = ''iTunesMetadata.plist'', data = ascii ''not a plist''\<rparr>"
  let ?tr = "[list_call ''app.ipa'',
              read_call ''app.ipa'' ''Payload/Foo.app/SC_Info/Manifest.plist'']"
  have ne: "''bm90IGEgcGxpc3Q='' \<noteq> []" by simp
  have h: "filesToInject example_world ?S ''app.ipa'' (Some ''bm90IGEgcGxpc3Q='') =
             (Inr [?drm, ?meta], ?tr)"
    by code_simp
  note t = empty_metadata_and_order[of example_world _ _ _ _ ?S "''app.ipa''" "[?drm]" ?tr
             "''bm90IGEgcGxpc3Q=''" "[?drm, ?meta]" ?tr]
  note t1 = t[THEN conjunct1]
  note t3 = t[THEN conjunct2, THEN conjunct2, THEN conjunct1]
  note t4 = t[THEN conjunct2, THEN conjunct2, THEN conjunct2, THEN conjunct1]
  note t7 = t[THEN conjunct2, THEN conjunct2, THEN conjunct2, THEN conjunct2, THEN conjunct2,
              THEN conjunct2]
  note o = t7[THEN mp, OF conjI[OF ne h]]
  from o[THEN conjunct2, THEN conjunct2, THEN conjunct1]
  have i: "inject_sinfs example_world ?S ''app.ipa'' = (Inr [?drm], ?tr)" by simp
  from t3 i have e: "filesToInject example_world ?S ''app.ipa'' (Some []) = (Inr [?drm], ?tr)"
    by simp
  from t4[THEN mp, OF e] have n: "entryPath ?drm \<noteq> ''iTunesMetadata.plist''" by simp
  from o[THEN conjunct2, THEN conjunct1]
  have l: "entryPath (last [?drm, ?meta]) = ''iTunesMetadata.plist''" .
  from t1 e n ne h i l show ?thesis by (intro conjI)
qed

end
